(* ===== verification/Prelude.thy ===== *)
theory Prelude
  imports Main "HOL-Library.Word" "HOL-Library.Monad_Syntax" "HOL-Library.Sublist"
begin

text \<open>
  The shared base of the development: the machine types of the program, the Rust list
  idioms that several components use (\<open>iter().find\<close>, \<open>iter_mut().find\<close>,
  \<open>filter_map\<close>), the big-endian length prefix of \<open>u32::to_be_bytes\<close>, and the
  collections of facts the component proofs draw on.

  A Rust panic is \<open>None\<close> of an \<open>option\<close> result; an operation that cannot panic
  returns its value and the new state as a plain pair.
\<close>

named_theorems bundle_simps \<open>field facts of the constructors of bundles\<close>
named_theorems frame_simps \<open>what an operation leaves unchanged\<close>
named_theorems store_ops \<open>definitions of the storage operations\<close>

unbundle bit_operations_syntax

section \<open>Machine types\<close>

type_synonym byte = "8 word"
type_synonym u16 = "16 word"
type_synonym u32 = "32 word"
type_synonym u64 = "64 word"

text \<open>A UUID is a 128-bit value; the nil UUID (\<open>Uuid::default\<close>) is 0.\<close>

type_synonym uuid = "128 word"

text \<open>An instant of \<open>chrono::DateTime<Utc>\<close>.\<close>

type_synonym datetime = int

section \<open>List idioms\<close>

text \<open>\<open>iter().filter_map(f).collect()\<close>\<close>

fun filter_map :: "('a \<Rightarrow> 'b option) \<Rightarrow> 'a list \<Rightarrow> 'b list" where
  "filter_map f [] = []"
| "filter_map f (x # xs) =
     (case f x of None \<Rightarrow> filter_map f xs | Some y \<Rightarrow> y # filter_map f xs)"

text \<open>\<open>if let Some(r) = iter_mut().find(p) { *r = f(*r) }\<close>\<close>

fun update_first :: "('a \<Rightarrow> bool) \<Rightarrow> ('a \<Rightarrow> 'a) \<Rightarrow> 'a list \<Rightarrow> 'a list" where
  "update_first p f [] = []"
| "update_first p f (x # xs) = (if p x then f x # xs else x # update_first p f xs)"

lemma filter_map_roundtrip:
  assumes "\<And>x. x \<in> set xs \<Longrightarrow> \<exists>v. f x = Some v \<and> g v = Some x"
  shows "filter_map g (filter_map f xs) = xs"
  using assms
proof (induction xs)
  case Nil
  then show ?case by simp
next
  case (Cons x xs)
  obtain v where "f x = Some v" "g v = Some x" using Cons.prems by auto
  with Cons show ?case by simp
qed

lemma length_update_first [simp]: "length (update_first p f xs) = length xs"
  by (induction xs) auto

lemma map_update_first:
  "(\<And>x. x \<in> set xs \<Longrightarrow> p x \<Longrightarrow> g (f x) = g x) \<Longrightarrow> map g (update_first p f xs) = map g xs"
  by (induction xs) auto

lemma set_update_first_subset: "set (update_first p f xs) \<subseteq> set xs \<union> f ` {x \<in> set xs. p x}"
  by (induction xs) auto

lemma update_first_other: "x \<in> set xs \<Longrightarrow> \<not> p x \<Longrightarrow> x \<in> set (update_first p f xs)"
  by (induction xs) auto

lemma update_first_hit: "find p xs = Some x \<Longrightarrow> f x \<in> set (update_first p f xs)"
  by (induction xs) (auto split: if_splits)

lemma update_first_none: "\<forall>x \<in> set xs. \<not> p x \<Longrightarrow> update_first p f xs = xs"
  by (induction xs) auto

lemma find_SomeD: "find p xs = Some x \<Longrightarrow> x \<in> set xs \<and> p x"
  by (auto simp: find_Some_iff)

lemma find_None_iff_all: "find p xs = None \<longleftrightarrow> (\<forall>x \<in> set xs. \<not> p x)"
  by (auto simp: find_None_iff)

text \<open>A lookup by key in a list whose keys are distinct finds the element itself.\<close>

lemma find_key_eq:
  assumes "distinct (map key xs)" and "x \<in> set xs"
  shows "find (\<lambda>y. key y = key x) xs = Some x"
  using assms
proof (induction xs)
  case Nil
  then show ?case by simp
next
  case (Cons a xs)
  then show ?case by (cases "a = x") (auto simp: image_iff)
qed

lemma update_first_key:
  assumes "distinct (map key xs)" and "key (f x) = k" and "find (\<lambda>y. key y = k) xs = Some x"
    and "\<And>y. f y = f x"
  shows "set (update_first (\<lambda>y. key y = k) f xs) = insert (f x) {y \<in> set xs. key y \<noteq> k}"
  using assms
proof (induction xs)
  case Nil
  then show ?case by simp
next
  case (Cons a xs)
  show ?case
  proof (cases "key a = k")
    case True
    with Cons.prems(1) have "\<forall>y \<in> set xs. key y \<noteq> k" by (metis image_eqI distinct.simps(2) list.simps(9) list.set_map)
    moreover have "f a = f x" by (rule Cons.prems(4))
    ultimately show ?thesis using True by auto
  next
    case False
    with Cons show ?thesis by auto
  qed
qed

lemma length_filter_less_iff: "length (filter p xs) < length xs \<longleftrightarrow> (\<exists>x \<in> set xs. \<not> p x)"
proof
  assume "length (filter p xs) < length xs"
  then have "filter p xs \<noteq> xs" by auto
  then show "\<exists>x \<in> set xs. \<not> p x" using filter_id_conv by blast
qed (auto intro: length_filter_less)

lemma distinct_map_filter: "distinct (map f xs) \<Longrightarrow> distinct (map f (filter p xs))"
  by (induction xs) auto

text \<open>Sublists: what a \<open>retain\<close> leaves.\<close>

lemma subseq_set: "subseq xs ys \<Longrightarrow> set xs \<subseteq> set ys"
  by (induction rule: list_emb.induct) auto

lemma subseq_distinct_map: "subseq xs ys \<Longrightarrow> distinct (map f ys) \<Longrightarrow> distinct (map f xs)"
proof (induction rule: list_emb.induct)
  case (list_emb_Cons2 x y xs ys)
  then show ?case using subseq_set [of xs ys] by auto
qed auto

section \<open>The length prefix: \<open>u32::to_be_bytes\<close> and \<open>u32::from_be_bytes\<close>\<close>

definition to_be_bytes :: "u32 \<Rightarrow> byte list" where
  "to_be_bytes n = [ucast (drop_bit 24 n), ucast (drop_bit 16 n), ucast (drop_bit 8 n), ucast n]"

fun from_be_bytes :: "byte list \<Rightarrow> u32" where
  "from_be_bytes [a, b, c, d] =
     push_bit 24 (ucast a) OR push_bit 16 (ucast b) OR push_bit 8 (ucast c) OR ucast d"
| "from_be_bytes _ = 0"

lemma length_to_be_bytes [simp]: "length (to_be_bytes n) = 4"
  by (simp add: to_be_bytes_def)

lemma from_to_be_bytes [simp]: "from_be_bytes (to_be_bytes n) = n"
  unfolding to_be_bytes_def from_be_bytes.simps
proof (rule bit_word_eqI)
  fix m :: nat
  assume "m < LENGTH(32)"
  then consider "24 \<le> m" | "16 \<le> m" "m < 24" | "8 \<le> m" "m < 16" | "m < 8" by fastforce
  then show "bit (push_bit 24 (ucast (ucast (drop_bit 24 n) :: byte))
      OR push_bit 16 (ucast (ucast (drop_bit 16 n) :: byte))
      OR push_bit 8 (ucast (ucast (drop_bit 8 n) :: byte)) OR ucast (ucast n :: byte) :: u32) m = bit n m"
    using \<open>m < LENGTH(32)\<close> by cases (auto simp: bit_simps)
qed

lemma to_from_be_bytes: "length bs = 4 \<Longrightarrow> to_be_bytes (from_be_bytes bs) = bs"
proof -
  assume "length bs = 4"
  then obtain a b c d where bs: "bs = [a, b, c, d]"
    by (auto simp: numeral_eq_Suc length_Suc_conv)
  have "ucast (drop_bit 24 (from_be_bytes bs)) = a" "ucast (drop_bit 16 (from_be_bytes bs)) = b"
    "ucast (drop_bit 8 (from_be_bytes bs)) = c" "ucast (from_be_bytes bs) = d"
    by (rule bit_word_eqI, auto simp: bs bit_simps dest: bit_imp_le_length)+
  then show ?thesis by (simp only: to_be_bytes_def) (simp add: bs)
qed

text \<open>The first byte on the wire, which the receiver peeks at.\<close>

lemma hd_to_be_bytes: "unat (hd (to_be_bytes n)) = unat n div 2 ^ 24"
proof -
  have "unat n div 2 ^ 24 < 2 ^ 8"
    using unsigned_less [of n, where ?'a = nat] by (simp add: div_less_iff_less_mult)
  then show ?thesis
    by (simp add: to_be_bytes_def unsigned_drop_bit_eq drop_bit_eq_div take_bit_eq_mod
        unsigned_ucast_eq unat_div_distrib)
qed

end
