(* ===== verification/Model.thy ===== *)
theory Model
  imports Prelude
begin

text \<open>
  The data types of the program: \<open>routing/model.rs\<close> (nodes and bundles),
  \<open>network/bundle.proto\<close> (the message on the wire) and the request, response and
  record types of \<open>network/server.rs\<close>.

  \<open>Node.routing_engine\<close> is marked \<open>#[serde(skip)]\<close>, is \<open>None\<close> in every
  node that was read from a file or a socket, and is never read through a bundle or a
  peer record. The record \<open>Node\<close> therefore holds the five data fields; the nodes of
  the command line, which do own an engine, extend it in theory \<open>Engine\<close>.
\<close>

section \<open>\<open>routing/model.rs\<close>\<close>

record Node =
  n_id :: uuid
  n_name :: string
  n_address :: string
  n_port :: u16
  n_peers :: "uuid list"

datatype MsgStatus = Pending | InTransit | Delivered | Expired

datatype BundleKind =
    is_Data: Data (msg: string)
  | is_Ack: Ack (ack_bundle_id: uuid)
  | is_RequestSV: RequestSV (from_id: uuid)
  | is_SummaryVector: SummaryVector (ids: "uuid list")

record Bundle =
  b_id :: uuid
  b_source :: Node
  b_destination :: Node
  b_timestamp :: datetime
  b_ttl :: u64
  b_kind :: BundleKind
  b_status :: MsgStatus

text \<open>
  The shipment status in the order of its life cycle, as the comments on the enum give it.
\<close>

fun status_rank :: "MsgStatus \<Rightarrow> nat" where
  "status_rank Pending = 0"
| "status_rank InTransit = 1"
| "status_rank Delivered = 2"
| "status_rank Expired = 3"

instantiation MsgStatus :: linorder
begin

definition less_eq_MsgStatus :: "MsgStatus \<Rightarrow> MsgStatus \<Rightarrow> bool" where
  "less_eq_MsgStatus s t \<longleftrightarrow> status_rank s \<le> status_rank t"

definition less_MsgStatus :: "MsgStatus \<Rightarrow> MsgStatus \<Rightarrow> bool" where
  "less_MsgStatus s t \<longleftrightarrow> status_rank s < status_rank t"

instance
proof
  fix s t :: MsgStatus
  show "s \<le> t \<Longrightarrow> t \<le> s \<Longrightarrow> s = t"
    by (cases s; cases t) (auto simp: less_eq_MsgStatus_def)
qed (auto simp: less_eq_MsgStatus_def less_MsgStatus_def)

end

section \<open>Views of a list of bundles\<close>

text \<open>
  \<open>bundles.iter().any(|b| match &b.kind { Ack { ack_bundle_id } => .. == id, _ => false })\<close>
\<close>

definition has_ack :: "Bundle list \<Rightarrow> uuid \<Rightarrow> bool" where
  "has_ack bs d \<longleftrightarrow> list_ex (\<lambda>b. case b_kind b of Ack a \<Rightarrow> a = d | _ \<Rightarrow> False) bs"

definition has_id :: "Bundle list \<Rightarrow> uuid \<Rightarrow> bool" where
  "has_id bs i \<longleftrightarrow> list_ex (\<lambda>b. b_id b = i) bs"

definition find_id :: "uuid \<Rightarrow> Bundle list \<Rightarrow> Bundle option" where
  "find_id i bs = find (\<lambda>b. b_id b = i) bs"

lemma case_Ack_iff: "(case k of Ack a \<Rightarrow> a = d | _ \<Rightarrow> False) \<longleftrightarrow> k = Ack d"
  by (cases k) auto

lemma has_ack_iff: "has_ack bs d \<longleftrightarrow> (\<exists>b \<in> set bs. b_kind b = Ack d)"
  by (simp add: has_ack_def list_ex_iff case_Ack_iff)

lemma has_id_iff: "has_id bs i \<longleftrightarrow> i \<in> b_id ` set bs"
  by (auto simp: has_id_def list_ex_iff)

lemma find_id_Some: "find_id i bs = Some b \<Longrightarrow> b \<in> set bs \<and> b_id b = i"
  unfolding find_id_def by (rule find_SomeD)

lemma find_id_None: "find_id i bs = None \<longleftrightarrow> \<not> has_id bs i"
  by (auto simp: find_id_def find_None_iff_all has_id_iff)

lemma find_id_eq: "distinct (map b_id bs) \<Longrightarrow> b \<in> set bs \<Longrightarrow> find_id (b_id b) bs = Some b"
  unfolding find_id_def by (rule find_key_eq)

section \<open>\<open>network/bundle.proto\<close>\<close>

datatype proto_kind = DATA | ACK | REQUESTSV | SUMMARYVEC

datatype proto_status = PENDING | DELIVERED | EXPIRED

text \<open>
  A proto3 enum field holds the number on the wire: \<open>kind.into()\<close> stores the number of
  a value, \<open>enum_value_or_default\<close> reads it back, an unknown number as the first value.
\<close>

fun proto_kind_num :: "proto_kind \<Rightarrow> int" where
  "proto_kind_num DATA = 0"
| "proto_kind_num ACK = 1"
| "proto_kind_num REQUESTSV = 2"
| "proto_kind_num SUMMARYVEC = 3"

definition proto_kind_or_default :: "int \<Rightarrow> proto_kind" where
  "proto_kind_or_default n =
     (if n = 1 then ACK else if n = 2 then REQUESTSV else if n = 3 then SUMMARYVEC else DATA)"

fun proto_status_num :: "proto_status \<Rightarrow> int" where
  "proto_status_num PENDING = 0"
| "proto_status_num DELIVERED = 1"
| "proto_status_num EXPIRED = 2"

lemma proto_kind_roundtrip [simp]: "proto_kind_or_default (proto_kind_num k) = k"
  by (cases k) (simp_all add: proto_kind_or_default_def)

record ProtobufBundle =
  pb_id :: string
  pb_source_id :: string
  pb_source_name :: string
  pb_source_address :: string
  pb_source_port :: u32
  pb_source_peers :: "string list"
  pb_destination_id :: string
  pb_destination_name :: string
  pb_destination_address :: string
  pb_destination_port :: u32
  pb_destination_peers :: "string list"
  pb_timestamp :: int
  pb_ttl :: u64
  pb_kind :: int
  pb_kind_data :: string
  pb_shipment_status :: int

section \<open>\<open>network/server.rs\<close>: the messages of the registry\<close>

datatype ConnectionStatus = Connected | Disconnected

record PeerRecord =
  p_node :: Node
  p_status :: ConnectionStatus

datatype ServerRequest = Register Node | GetConnectedPeers "uuid list"

datatype ServerResponse = Ok | Peers "PeerRecord list" | Error string

end
