(* ===== verification/Environment.thy ===== *)
theory Environment
  imports Model
begin

text \<open>
  Everything the program calls that is not under \<open>src/\<close>, and the state of the world
  its effects reach.

  The record \<open>env\<close> holds the third-party functions (\<open>chrono\<close>, \<open>uuid\<close>,
  \<open>serde_json\<close>, \<open>protobuf\<close>) and the outcomes of the operating system (clock,
  random identifiers, files, sockets). It is an argument of every definition that uses it;
  no definition is given for it. Outcomes are indexed by the number of consultations of the
  environment so far (\<open>tick\<close>), so that two calls of the same primitive may end
  differently; no assumption relates the outcomes of different ticks.

  The record \<open>world\<close> holds the mutable state: the files (path to contents), the
  existing directories, the tick counter, the seconds slept, and four history variables that
  no operation reads: \<open>unsynced\<close>, the files with contents that need not survive a loss of
  power; \<open>sent\<close>, the bytes written with the address they were written to;
  \<open>frames\<close>, the bundles of which \<open>send_bundle\<close> has written a whole frame; and
  \<open>answered\<close>, those of them for which it has read an answer. What is printed is not part of
  the model, but for the failure of a print under the lock of the registry, which poisons it
  (\<open>console\<close>).
\<close>

section \<open>The environment\<close>

record 'v env =
  \<comment> \<open>chrono\<close>
  now :: "nat \<Rightarrow> datetime"                          \<comment> \<open>\<open>Utc::now()\<close>\<close>
  age_seconds :: "datetime \<Rightarrow> datetime \<Rightarrow> int"         \<comment> \<open>\<open>signed_duration_since\<close>, \<open>num_seconds\<close>\<close>
  timestamp_seconds :: "datetime \<Rightarrow> int"              \<comment> \<open>\<open>timestamp()\<close>\<close>
  from_timestamp :: "int \<Rightarrow> datetime option"          \<comment> \<open>\<open>DateTime::from_timestamp(s, 0)\<close>\<close>
  default_datetime :: datetime
  \<comment> \<open>uuid\<close>
  new_v4 :: "nat \<Rightarrow> uuid"
  new_v5 :: "uuid \<Rightarrow> string \<Rightarrow> uuid"
  uuid_to_string :: "uuid \<Rightarrow> string"
  uuid_parse_str :: "string \<Rightarrow> uuid option"
  \<comment> \<open>serde_json, on the bundles file\<close>
  json_of_bundle :: "Bundle \<Rightarrow> 'v option"             \<comment> \<open>\<open>to_value(bundle).ok()\<close>\<close>
  bundle_of_json :: "'v \<Rightarrow> Bundle option"             \<comment> \<open>\<open>from_value::<Bundle>(v).ok()\<close>\<close>
  json_object :: "string \<Rightarrow> 'v list \<Rightarrow> 'v"            \<comment> \<open>\<open>json!({ key: values })\<close>\<close>
  json_get :: "'v \<Rightarrow> string \<Rightarrow> 'v option"
  json_as_array :: "'v \<Rightarrow> 'v list option"
  json_to_string_pretty :: "'v \<Rightarrow> string option"
  json_from_str :: "string \<Rightarrow> 'v option"
  \<comment> \<open>serde_json, on the messages between processes\<close>
  kind_to_vec :: "BundleKind \<Rightarrow> byte list option"
  kind_from_slice :: "byte list \<Rightarrow> BundleKind option"
  request_to_vec :: "ServerRequest \<Rightarrow> byte list option"
  request_from_slice :: "byte list \<Rightarrow> ServerRequest option"
  response_to_vec :: "ServerResponse \<Rightarrow> byte list option"
  response_from_slice :: "byte list \<Rightarrow> ServerResponse option"
  request_error_text :: "byte list \<Rightarrow> string"           \<comment> \<open>the \<open>Display\<close> of the parse error\<close>
  \<comment> \<open>protobuf\<close>
  write_to_bytes :: "ProtobufBundle \<Rightarrow> byte list option"
  parse_from_bytes :: "byte list \<Rightarrow> ProtobufBundle option"
  \<comment> \<open>files: whether the call at a tick succeeds; a write may stop after some characters\<close>
  io_mkdir :: "nat \<Rightarrow> bool"
  io_read :: "nat \<Rightarrow> bool"
  io_create :: "nat \<Rightarrow> bool"
  io_write :: "nat \<Rightarrow> nat option"
  io_sync :: "nat \<Rightarrow> bool"
  io_rename :: "nat \<Rightarrow> bool"
  io_error_text :: "nat \<Rightarrow> string"                   \<comment> \<open>the \<open>Display\<close> of an \<open>io::Error\<close>\<close>
  \<comment> \<open>sockets\<close>
  tcp_connect :: "nat \<Rightarrow> string \<Rightarrow> bool"
  tcp_incoming :: "nat \<Rightarrow> string \<Rightarrow> byte list"       \<comment> \<open>what the process at the address will send on the new connection\<close>
  tcp_read :: "nat \<Rightarrow> bool"
  tcp_chunk :: "nat \<Rightarrow> nat"                          \<comment> \<open>how many bytes one \<open>read\<close> returns\<close>
  tcp_write :: "nat \<Rightarrow> nat option"
  \<comment> \<open>\<open>env!("CARGO_MANIFEST_DIR")\<close>\<close>
  manifest_dir :: string
  \<comment> \<open>tokio: whether \<open>Builder::build\<close> gives a runtime\<close>
  runtime_build :: "nat \<Rightarrow> bool"
  \<comment> \<open>whether what the registry server prints under its lock is written; else the thread panics\<close>
  console :: "nat \<Rightarrow> bool"

section \<open>The world\<close>

record world =
  disk :: "string \<Rightarrow> string option"
  dirs :: "string \<Rightarrow> bool"
  tick :: nat
  slept :: nat
  sent :: "(string \<times> byte list) list"
  frames :: "(string \<times> Bundle) list"
  answered :: "(string \<times> Bundle) list"
  unsynced :: "string set"

definition tock :: "world \<Rightarrow> world" where
  "tock W = W\<lparr>tick := Suc (tick W)\<rparr>"

lemma tock_simps [simp]:
  "disk (tock W) = disk W" "dirs (tock W) = dirs W" "tick (tock W) = Suc (tick W)"
  "slept (tock W) = slept W" "sent (tock W) = sent W"
  "frames (tock W) = frames W" "answered (tock W) = answered W" "unsynced (tock W) = unsynced W"
  by (simp_all add: tock_def)

section \<open>Formatting: \<open>format!("{}", n)\<close> of an unsigned integer\<close>

fun show_nat :: "nat \<Rightarrow> string" where
  "show_nat n =
     (if n < 10 then [char_of (48 + n)] else show_nat (n div 10) @ [char_of (48 + n mod 10)])"

declare show_nat.simps [simp del]

definition socket_addr :: "string \<Rightarrow> u16 \<Rightarrow> string" where
  "socket_addr address port = address @ '':'' @ show_nat (unat port)"

section \<open>Clock and identifiers\<close>

definition utc_now :: "'v env \<Rightarrow> world \<Rightarrow> datetime \<times> world" where
  "utc_now E W = (now E (tick W), tock W)"

definition uuid_new_v4 :: "'v env \<Rightarrow> world \<Rightarrow> uuid \<times> world" where
  "uuid_new_v4 E W = (new_v4 E (tick W), tock W)"

section \<open>Paths and files (\<open>std::path\<close>, \<open>std::fs\<close>)\<close>

definition is_relative :: "string \<Rightarrow> bool" where
  "is_relative p \<longleftrightarrow> \<not> (\<exists>q. p = CHR ''/'' # q)"

definition path_join :: "string \<Rightarrow> string \<Rightarrow> string" where
  "path_join d f =
     (if \<not> is_relative f then f
      else if d = [] \<or> last d = CHR ''/'' then d @ f
      else d @ CHR ''/'' # f)"

lemma is_relative_code [code]: "is_relative p = (case p of [] \<Rightarrow> True | c # _ \<Rightarrow> c \<noteq> CHR ''/'')"
  by (auto simp: is_relative_def split: list.splits)

definition fs_read_to_string :: "'v env \<Rightarrow> string \<Rightarrow> world \<Rightarrow> string option \<times> world" where
  "fs_read_to_string E p W = ((if io_read E (tick W) then disk W p else None), tock W)"

definition fs_create :: "'v env \<Rightarrow> string \<Rightarrow> world \<Rightarrow> bool \<times> world" where
  "fs_create E p W =
     (if io_create E (tick W) then (True, tock (W\<lparr>disk := (disk W)(p \<mapsto> []), unsynced := insert p (unsynced W)\<rparr>))
      else (False, tock W))"

text \<open>
  \<open>write_all\<close> on a freshly created file; an error leaves a prefix of the contents.
\<close>

definition fs_write_all :: "'v env \<Rightarrow> string \<Rightarrow> string \<Rightarrow> world \<Rightarrow> bool \<times> world" where
  "fs_write_all E p c W =
     (case io_write E (tick W) of
        None \<Rightarrow> (True, tock (W\<lparr>disk := (disk W)(p \<mapsto> c), unsynced := insert p (unsynced W)\<rparr>))
      | Some k \<Rightarrow> (False, tock (W\<lparr>disk := (disk W)(p \<mapsto> take k c), unsynced := insert p (unsynced W)\<rparr>)))"

text \<open>\<open>sync_all\<close> on a file that was created under the path \<open>p\<close>.\<close>

definition fs_sync_all :: "'v env \<Rightarrow> string \<Rightarrow> world \<Rightarrow> bool \<times> world" where
  "fs_sync_all E p W =
     (if io_sync E (tick W) then (True, tock (W\<lparr>unsynced := unsynced W - {p}\<rparr>)) else (False, tock W))"

definition fs_rename :: "'v env \<Rightarrow> string \<Rightarrow> string \<Rightarrow> world \<Rightarrow> bool \<times> world" where
  "fs_rename E src dst W =
     (if io_rename E (tick W) then (True, tock (W\<lparr>disk := (disk W)(dst := disk W src, src := None),
        unsynced := (if src \<in> unsynced W then insert dst (unsynced W - {src}) else unsynced W - {dst})\<rparr>))
      else (False, tock W))"

definition fs_create_dir_all :: "'v env \<Rightarrow> string \<Rightarrow> world \<Rightarrow> bool \<times> world" where
  "fs_create_dir_all E d W =
     (if io_mkdir E (tick W) then (True, tock (W\<lparr>dirs := (dirs W)(d := True)\<rparr>))
      else (False, tock W))"

text \<open>
  A chain of fallible steps, as \<open>and_then\<close> and \<open>?\<close> run it: the first failure ends it.
\<close>

fun run_io :: "(world \<Rightarrow> bool \<times> world) list \<Rightarrow> world \<Rightarrow> bool \<times> world" where
  "run_io [] W = (True, W)"
| "run_io (f # fs) W = (let (ok, W) = f W in if ok then run_io fs W else (False, W))"

text \<open>
  What a loss of power may leave on the disk: the files whose contents are synced are as they
  were, the others hold anything. A rename takes effect at once or, if power is lost before it
  reaches the disk, not at all.
\<close>

definition power_loss :: "world \<Rightarrow> world \<Rightarrow> bool" where
  "power_loss W V \<longleftrightarrow> (\<forall>p. p \<notin> unsynced W \<longrightarrow> disk V p = disk W p)"

lemmas fs_defs = fs_read_to_string_def fs_create_def fs_write_all_def fs_sync_all_def
  fs_rename_def fs_create_dir_all_def

section \<open>Sockets (\<open>std::net::TcpStream\<close>)\<close>

text \<open>
  A stream is the address it is connected to and the bytes still to be read from it. What is
  written is appended to \<open>sent\<close> of the world under that address, also the part of a
  write that failed.
\<close>

record stream =
  s_addr :: string
  s_in :: "byte list"

definition stream_write_all :: "'v env \<Rightarrow> stream \<Rightarrow> byte list \<Rightarrow> world \<Rightarrow> bool \<times> world" where
  "stream_write_all E S bs W =
     (case tcp_write E (tick W) of
        None \<Rightarrow> (True, tock (W\<lparr>sent := sent W @ [(s_addr S, bs)]\<rparr>))
      | Some k \<Rightarrow> (False, tock (W\<lparr>sent := sent W @ [(s_addr S, take k bs)]\<rparr>)))"

text \<open>\<open>read_exact\<close> fails at the end of the stream; the bytes read so far are lost.\<close>

definition stream_read_exact ::
    "'v env \<Rightarrow> nat \<Rightarrow> stream \<Rightarrow> world \<Rightarrow> byte list option \<times> stream \<times> world" where
  "stream_read_exact E n S W =
     (if tcp_read E (tick W) \<and> n \<le> length (s_in S)
      then (Some (take n (s_in S)), S\<lparr>s_in := drop n (s_in S)\<rparr>, tock W)
      else (None, S\<lparr>s_in := drop n (s_in S)\<rparr>, tock W))"

text \<open>
  \<open>read\<close> into a buffer of \<open>n\<close> bytes returns at least one byte and at most
  \<open>n\<close>, or none at the end of the stream.
\<close>

definition stream_read ::
    "'v env \<Rightarrow> nat \<Rightarrow> stream \<Rightarrow> world \<Rightarrow> byte list option \<times> stream \<times> world" where
  "stream_read E n S W =
     (if tcp_read E (tick W)
      then let k = min n (max 1 (tcp_chunk E (tick W)))
           in (Some (take k (s_in S)), S\<lparr>s_in := drop k (s_in S)\<rparr>, tock W)
      else (None, S, tock W))"

text \<open>\<open>peek\<close> into a buffer of one byte: the bytes seen, nothing consumed.\<close>

definition stream_peek :: "'v env \<Rightarrow> stream \<Rightarrow> world \<Rightarrow> byte list option \<times> world" where
  "stream_peek E S W = ((if tcp_read E (tick W) then Some (take 1 (s_in S)) else None), tock W)"

lemmas stream_defs = stream_write_all_def stream_read_exact_def stream_read_def stream_peek_def

section \<open>Documented behaviour the code relies on\<close>

text \<open>
  \<open>serde_laws\<close>: a derived \<open>Serialize\<close> is inverted by the derived \<open>Deserialize\<close>,
  printing an object and parsing it gives the object back, and a key of \<open>json!({ .. })\<close>
  reads back the array it was built from. \<open>io_ok\<close>: every file operation succeeds.
\<close>

definition serde_laws :: "'v env \<Rightarrow> bool" where
  "serde_laws E \<longleftrightarrow>
     (\<forall>b. \<exists>v. json_of_bundle E b = Some v \<and> bundle_of_json E v = Some b) \<and>
     (\<forall>k vs. \<exists>c. json_to_string_pretty E (json_object E k vs) = Some c \<and>
        json_from_str E c = Some (json_object E k vs)) \<and>
     (\<forall>k vs. Option.bind (json_get E (json_object E k vs) k) (json_as_array E) = Some vs)"

lemma serde_bundle: "serde_laws E \<Longrightarrow> \<exists>v. json_of_bundle E b = Some v \<and> bundle_of_json E v = Some b"
  by (simp add: serde_laws_def)

lemma serde_print:
  assumes "serde_laws E"
  obtains c where "json_to_string_pretty E (json_object E k vs) = Some c"
    and "json_from_str E c = Some (json_object E k vs)"
  using assms unfolding serde_laws_def by blast

lemma serde_get:
  "serde_laws E \<Longrightarrow> Option.bind (json_get E (json_object E k vs) k) (json_as_array E) = Some vs"
  by (simp add: serde_laws_def)

definition io_ok :: "'v env \<Rightarrow> bool" where
  "io_ok E \<longleftrightarrow> (\<forall>n. io_read E n \<and> io_create E n \<and> io_write E n = None \<and> io_sync E n \<and>
     io_rename E n \<and> io_mkdir E n)"

text \<open>\<open>later W W'\<close>: only the clock has moved.\<close>

definition later :: "world \<Rightarrow> world \<Rightarrow> bool" where
  "later W W' \<longleftrightarrow> tick W \<le> tick W' \<and> W' = W\<lparr>tick := tick W'\<rparr>"

lemma later_refl [simp]: "later W W"
  by (simp add: later_def)

lemma later_tock [simp]: "later W (tock W)"
  by (simp add: later_def tock_def)

lemma later_trans [trans]: "later W W' \<Longrightarrow> later W' W'' \<Longrightarrow> later W W''"
  unfolding later_def by (metis (no_types, lifting) le_trans world.surjective world.update_convs(3))

lemma later_fields:
  assumes "later W W'"
  shows "disk W' = disk W" "dirs W' = dirs W" "slept W' = slept W" "sent W' = sent W"
    "frames W' = frames W" "answered W' = answered W"
  using assms unfolding later_def by (metis world.select_convs world.surjective world.update_convs(3))+

end
