(* ===== verification/Bundle_Ops.thy ===== *)
theory Bundle_Ops
  imports Environment
begin

text \<open>
  The functions of \<open>routing/model.rs\<close> and \<open>routing/ack.rs\<close> on bundles:
  creation (\<open>Bundle::new\<close>), acknowledgement (\<open>Bundle::new_ack\<close>), expiry
  (\<open>Bundle::is_expired\<close>), and the identifier of a node (\<open>Uuid::new_v5\<close> over
  the DNS namespace). The order of the calls to the clock and the random source is the
  order of the fields in the struct expressions.
\<close>

definition bundle_new ::
    "'v env \<Rightarrow> Node \<Rightarrow> Node \<Rightarrow> BundleKind \<Rightarrow> u64 \<Rightarrow> world \<Rightarrow> Bundle \<times> world" where
  "bundle_new E source destination kind ttl W =
     (let (i, W) = uuid_new_v4 E W; (t, W) = utc_now E W
      in (\<lparr>b_id = i, b_source = source, b_destination = destination, b_timestamp = t,
           b_ttl = ttl, b_kind = kind, b_status = Pending\<rparr>, W))"

definition new_ack :: "'v env \<Rightarrow> Bundle \<Rightarrow> world \<Rightarrow> Bundle \<times> world" where
  "new_ack E delivered W =
     (let (i, W) = uuid_new_v4 E W; (t, W) = utc_now E W
      in (\<lparr>b_id = i, b_source = b_destination delivered, b_destination = b_source delivered,
           b_timestamp = t, b_ttl = b_ttl delivered, b_kind = Ack (b_id delivered),
           b_status = Pending\<rparr>, W))"

text \<open>\<open>age > self.ttl as i64\<close>: the cast reinterprets the 64 bits as signed.\<close>

definition expired_at :: "'v env \<Rightarrow> datetime \<Rightarrow> Bundle \<Rightarrow> bool" where
  "expired_at E t b \<longleftrightarrow> age_seconds E t (b_timestamp b) > sint (b_ttl b)"

definition is_expired :: "'v env \<Rightarrow> Bundle \<Rightarrow> world \<Rightarrow> bool \<times> world" where
  "is_expired E b W = (let (t, W) = utc_now E W in (expired_at E t b, W))"

text \<open>
  \<open>Uuid::parse_str(..).unwrap()\<close> on the namespace constant, then the name-based UUID.
\<close>

definition namespace_text :: string where
  "namespace_text = ''6ba7b810-9dad-11d1-80b4-00c04fd430c8''"

definition node_id :: "'v env \<Rightarrow> string \<Rightarrow> uuid option" where
  "node_id E name = map_option (\<lambda>ns. new_v5 E ns name) (uuid_parse_str E namespace_text)"

section \<open>What the constructors produce\<close>

lemma bundle_new_simps [bundle_simps]:
  assumes "bundle_new E s d k t W = (b, W')"
  shows "b_source b = s" "b_destination b = d" "b_kind b = k" "b_ttl b = t" "b_status b = Pending"
    "b_id b = new_v4 E (tick W)" "b_timestamp b = now E (Suc (tick W))" "W' = tock (tock W)"
  using assms by (auto simp: bundle_new_def uuid_new_v4_def utc_now_def)

lemma new_ack_simps [bundle_simps]:
  assumes "new_ack E x W = (b, W')"
  shows "b_source b = b_destination x" "b_destination b = b_source x" "b_kind b = Ack (b_id x)"
    "b_ttl b = b_ttl x" "b_status b = Pending"
    "b_id b = new_v4 E (tick W)" "b_timestamp b = now E (Suc (tick W))" "W' = tock (tock W)"
  using assms by (auto simp: new_ack_def uuid_new_v4_def utc_now_def)

lemma is_expired_eq: "is_expired E b W = (expired_at E (now E (tick W)) b, tock W)"
  by (simp add: is_expired_def utc_now_def)

section \<open>Time to live\<close>

text \<open>The signed reading of 64 bits, from the unsigned one.\<close>

lemma sint_u64: "sint (t :: u64) = (if uint t < 2 ^ 63 then uint t else uint t - 2 ^ 64)"
proof -
  have u: "uint t = sint t mod 2 ^ 64"
    using uint_sint [of t] by (simp add: take_bit_eq_mod)
  have lo: "- (2 ^ 63) \<le> sint t" and hi: "sint t < 2 ^ 63"
    using sint_ge [of t] sint_lt [of t] by simp_all
  show ?thesis
  proof (cases "0 \<le> sint t")
    case True
    then have "uint t = sint t" using u hi by simp
    then show ?thesis using hi by auto
  next
    case False
    then have "sint t mod 2 ^ 64 = sint t + 2 ^ 64"
      using lo by (subst mod_add_self2 [symmetric], subst mod_pos_pos_trivial) auto
    then show ?thesis using u lo by auto
  qed
qed

text \<open>
  From \<open>2 ^ 63\<close> on the limit is negative: a bundle whose age is not negative has expired.
\<close>

lemma huge_ttl_expired:
  assumes "2 ^ 63 \<le> uint (b_ttl b)" and "0 \<le> age_seconds E t (b_timestamp b)"
  shows "expired_at E t b"
proof -
  have "uint (b_ttl b) < 2 ^ 64" using uint_lt2p [of "b_ttl b"] by simp
  then show ?thesis using assms by (simp add: expired_at_def sint_u64)
qed

end
