(* ===== verification/Storage.thy ===== *)
theory Storage
  imports Bundle_Ops
begin

text \<open>
  \<open>storage/storage.rs\<close>: the bundles of a node, kept in \<open>bundles.json\<close> of its
  directory with a cache in memory.

  An operation takes and returns a \<open>store\<close>, the \<open>StorageLayer\<close> value with the
  world. The operations that write the file return an \<open>option\<close>: \<open>None\<close> is the panic
  of \<open>to_string_pretty(..).unwrap()\<close>. A poisoned \<open>STORAGE_IO_LOCK\<close> can only come
  from a panic inside one of its critical sections; a run of the model ends at the first
  panic, so \<open>lock().unwrap()\<close> succeeds in it. \<open>disk_bundles\<close> reads what the file
  holds; the properties of the operations are stated over it.
\<close>

section \<open>Errors\<close>

datatype StorageError =
    NotFound string
  | AlreadyExists string
  | StorageFull string
  | SerializationError string

fun display_error :: "StorageError \<Rightarrow> string" where
  "display_error (NotFound i) = ''Bundle with id '' @ i @ '' not found''"
| "display_error (AlreadyExists i) = ''Bundle with id '' @ i @ '' already exists''"
| "display_error (StorageFull i) = ''Storage full for bundle with id '' @ i"
| "display_error (SerializationError i) =
     ''Serialization error for bundle with id '' @ i @
     '' (error in serialization or deserialization)''"

section \<open>State\<close>

record StorageLayer =
  storage_dir :: string
  bundles :: "Bundle list"
  capacity :: nat

type_synonym store = "StorageLayer \<times> world"

definition bundles_file :: "string \<Rightarrow> string" where
  "bundles_file dir = path_join dir ''bundles.json''"

definition tmp_file :: "string \<Rightarrow> string" where
  "tmp_file dir = path_join dir ''bundles.json.tmp''"

definition has_ack_for_data_id :: "StorageLayer \<Rightarrow> uuid \<Rightarrow> bool" where
  "has_ack_for_data_id L d \<longleftrightarrow> has_ack (bundles L) d"

section \<open>Reading the file\<close>

definition parse_bundles :: "'v env \<Rightarrow> string \<Rightarrow> Bundle list" where
  "parse_bundles E content =
     (case json_from_str E content of
        Some json_value \<Rightarrow>
          (case Option.bind (json_get E json_value ''bundles'') (json_as_array E) of
             Some bundles_array \<Rightarrow> filter_map (bundle_of_json E) bundles_array
           | None \<Rightarrow> [])
      | None \<Rightarrow> [])"

definition load_bundles_from_file :: "'v env \<Rightarrow> string \<Rightarrow> world \<Rightarrow> Bundle list \<times> world" where
  "load_bundles_from_file E dir W =
     (if disk W (bundles_file dir) = None then ([], W)
      else
        (let (r, W) = fs_read_to_string E (bundles_file dir) W
         in (case r of Some content \<Rightarrow> (parse_bundles E content, W) | None \<Rightarrow> ([], W))))"

definition refresh_from_disk :: "'v env \<Rightarrow> store \<Rightarrow> store" where
  "refresh_from_disk E s =
     (let (L, W) = s; (bs, W) = load_bundles_from_file E (storage_dir L) W
      in (L\<lparr>bundles := bs\<rparr>, W))"

text \<open>
  \<open>StorageLayer::new\<close>: \<open>None\<close> is the panic when the directory cannot be created.
\<close>

definition storage_new :: "'v env \<Rightarrow> string \<Rightarrow> nat \<Rightarrow> world \<Rightarrow> store option" where
  "storage_new E directory cap W =
     (let dir = (if is_relative directory then path_join (manifest_dir E) directory else directory);
          (made, W) = (if dirs W dir then (True, W) else fs_create_dir_all E dir W)
      in if \<not> made then None
         else
           (let (bs, W) = load_bundles_from_file E dir W
            in Some (\<lparr>storage_dir = dir, bundles = bs, capacity = cap\<rparr>, W)))"

section \<open>Writing the file\<close>

text \<open>
  The chain of calls that replaces the file: write a temporary file, sync it, rename it.
\<close>

definition write_steps :: "'v env \<Rightarrow> string \<Rightarrow> string \<Rightarrow> (world \<Rightarrow> bool \<times> world) list" where
  "write_steps E dir payload =
     [fs_create E (tmp_file dir),
      fs_write_all E (tmp_file dir) payload,
      fs_sync_all E (tmp_file dir),
      fs_rename E (tmp_file dir) (bundles_file dir)]"

definition payload_of :: "'v env \<Rightarrow> Bundle list \<Rightarrow> string option" where
  "payload_of E bs =
     json_to_string_pretty E (json_object E ''bundles'' (filter_map (json_of_bundle E) bs))"

definition save_to_file :: "'v env \<Rightarrow> store \<Rightarrow> ((StorageError + unit) \<times> store) option" where
  "save_to_file E s =
     (let (L, W) = s
      in case payload_of E (bundles L) of
           None \<Rightarrow> None
         | Some payload \<Rightarrow>
             (let (ok, W) = run_io (write_steps E (storage_dir L) payload) W
              in Some
                   (if ok then Inr ()
                    else Inl (SerializationError
                      (''Failed to write bundles.json: '' @ io_error_text E (tick W))),
                    (L, W))))"

text \<open>
  \<open>match self.save_to_file() { Ok(_) => true, Err(e) => { ..; false } }\<close>
\<close>

definition saved :: "(StorageError + unit) \<Rightarrow> bool" where
  "saved r = (case r of Inr _ \<Rightarrow> True | Inl _ \<Rightarrow> False)"

lemma saved_simps [simp]: "saved (Inr u)" "\<not> saved (Inl e)"
  by (simp_all add: saved_def)

section \<open>The operations\<close>

text \<open>
  \<open>retain(|b| !b.is_expired())\<close>: each call of \<open>is_expired\<close> reads the clock anew.
\<close>

fun retain_unexpired :: "'v env \<Rightarrow> Bundle list \<Rightarrow> world \<Rightarrow> Bundle list \<times> world" where
  "retain_unexpired E [] W = ([], W)"
| "retain_unexpired E (b # bs) W =
     (let (e, W) = is_expired E b W; (kept, W) = retain_unexpired E bs W
      in (if e then kept else b # kept, W))"

definition cleanup_expired_bundles :: "'v env \<Rightarrow> store \<Rightarrow> (nat \<times> store) option" where
  "cleanup_expired_bundles E s =
     (let (L, W) = refresh_from_disk E s;
          initial_len = length (bundles L);
          (kept, W) = retain_unexpired E (bundles L) W;
          L = L\<lparr>bundles := kept\<rparr>;
          removed_count = initial_len - length kept
      in if removed_count > 0
         then do { (_, s) \<leftarrow> save_to_file E (L, W); Some (removed_count, s) }
         else Some (removed_count, (L, W)))"

definition save_bundle :: "'v env \<Rightarrow> Bundle \<Rightarrow> store \<Rightarrow> (bool \<times> store) option" where
  "save_bundle E b s =
     do {
       (_, s) \<leftarrow> cleanup_expired_bundles E (refresh_from_disk E s);
       let (L, W) = s;
       if is_Data (b_kind b) \<and> has_ack_for_data_id L (b_id b) then Some (False, (L, W))
       else if length (bundles L) \<ge> capacity L then Some (False, (L, W))
       else if has_id (bundles L) (b_id b) then Some (False, (L, W))
       else do {
         (r, s) \<leftarrow> save_to_file E (L\<lparr>bundles := bundles L @ [b]\<rparr>, W);
         Some (saved r, s)
       }
     }"

definition get_bundle :: "'v env \<Rightarrow> uuid \<Rightarrow> store \<Rightarrow> Bundle option \<times> store" where
  "get_bundle E i s =
     (let s = refresh_from_disk E s in (find_id i (bundles (fst s)), s))"

definition get_all_bundles :: "'v env \<Rightarrow> store \<Rightarrow> Bundle list \<times> store" where
  "get_all_bundles E s = (let s = refresh_from_disk E s in (bundles (fst s), s))"

definition get_bundles_by_node :: "uuid \<Rightarrow> StorageLayer \<Rightarrow> uuid list" where
  "get_bundles_by_node i L = map b_id (filter (\<lambda>b. n_id (b_source b) = i) (bundles L))"

definition delete_bundle :: "'v env \<Rightarrow> uuid \<Rightarrow> store \<Rightarrow> (bool \<times> store) option" where
  "delete_bundle E i s =
     (let (L, W) = refresh_from_disk E s;
          initial_len = length (bundles L);
          L = L\<lparr>bundles := filter (\<lambda>b. b_id b \<noteq> i) (bundles L)\<rparr>
      in if length (bundles L) < initial_len
         then do { (r, s) \<leftarrow> save_to_file E (L, W); Some (saved r, s) }
         else Some (False, (L, W)))"

definition update_bundle :: "'v env \<Rightarrow> Bundle \<Rightarrow> store \<Rightarrow> (bool \<times> store) option" where
  "update_bundle E b s =
     (let (L, W) = refresh_from_disk E s
      in if is_Data (b_kind b) \<and> has_ack_for_data_id L (b_id b) then Some (False, (L, W))
         else if find_id (b_id b) (bundles L) = None then Some (False, (L, W))
         else do {
           (r, s) \<leftarrow> save_to_file E
             (L\<lparr>bundles := update_first (\<lambda>x. b_id x = b_id b) (\<lambda>_. b) (bundles L)\<rparr>, W);
           Some (saved r, s)
         })"

text \<open>
  \<open>save_ack_if_new_for_data\<close>, which holds the lock throughout and calls nothing else of
  the layer. A failing \<open>to_string_pretty\<close> is an early return here, not a panic.
\<close>

definition save_ack_if_new_for_data :: "'v env \<Rightarrow> Bundle \<Rightarrow> store \<Rightarrow> bool \<times> store" where
  "save_ack_if_new_for_data E ack s =
     (case b_kind ack of
        Ack d \<Rightarrow>
          (let (L, W) = refresh_from_disk E s
           in if has_ack (bundles L) d then (False, (L, W))
              else if length (bundles L) \<ge> capacity L then (False, (L, W))
              else
                (let L = L\<lparr>bundles := bundles L @ [ack]\<rparr>
                 in case payload_of E (bundles L) of
                      None \<Rightarrow> (False, (L, W))
                    | Some payload \<Rightarrow>
                        (let (ok, W) = run_io (write_steps E (storage_dir L) payload) W
                         in (ok, (L, W)))))
      | _ \<Rightarrow> (False, s))"

end
