(* ===== verification/Store_Interface.thy ===== *)
theory Store_Interface
  imports Model
begin

text \<open>
  What the routing layer may rely on in a store of bundles, as two locales over an abstract
  state: \<open>bundle_store\<close> holds in any environment, also when files cannot be read or
  written; \<open>reliable_store\<close> adds what holds when they can. The laws speak of the view,
  the list of bundles the file holds. The lemmas in the locales are about the call sequences
  of the clients (\<open>upsert\<close>, the handling of an acknowledgement), proved once here and
  used through the interpretations at the storage layer and at the bundle manager.
\<close>

section \<open>Operations on lists of bundles\<close>

text \<open>The reasons for which \<open>save_bundle\<close> and \<open>update_bundle\<close> return false.\<close>

definition refuses :: "Bundle list \<Rightarrow> nat \<Rightarrow> Bundle \<Rightarrow> bool" where
  "refuses bs cap b \<longleftrightarrow>
     is_Data (b_kind b) \<and> has_ack bs (b_id b) \<or> cap \<le> length bs \<or> has_id bs (b_id b)"

definition rejects :: "Bundle list \<Rightarrow> Bundle \<Rightarrow> bool" where
  "rejects bs b \<longleftrightarrow> is_Data (b_kind b) \<and> has_ack bs (b_id b) \<or> \<not> has_id bs (b_id b)"

text \<open>The replacement \<open>*existing = bundle.clone()\<close> at the first match, and \<open>retain\<close>.\<close>

definition replace_bundle :: "Bundle \<Rightarrow> Bundle list \<Rightarrow> Bundle list" where
  "replace_bundle b bs = update_first (\<lambda>x. b_id x = b_id b) (\<lambda>_. b) bs"

definition remove_id :: "uuid \<Rightarrow> Bundle list \<Rightarrow> Bundle list" where
  "remove_id i bs = filter (\<lambda>b. b_id b \<noteq> i) bs"

lemma map_id_replace [simp]: "map b_id (replace_bundle b bs) = map b_id bs"
  unfolding replace_bundle_def by (rule map_update_first) simp

lemma length_replace [simp]: "length (replace_bundle b bs) = length bs"
  by (simp add: replace_bundle_def)

lemma set_replace_subset: "set (replace_bundle b bs) \<subseteq> insert b (set bs)"
  using set_update_first_subset [of "\<lambda>x. b_id x = b_id b" "\<lambda>_. b" bs]
  by (auto simp: replace_bundle_def)

lemma replace_has: "has_id bs (b_id b) \<Longrightarrow> b \<in> set (replace_bundle b bs)"
proof -
  assume "has_id bs (b_id b)"
  then obtain x where "find (\<lambda>x. b_id x = b_id b) bs = Some x"
    by (metis find_id_None find_id_def option.exhaust)
  then show ?thesis unfolding replace_bundle_def
    using update_first_hit [of "\<lambda>x. b_id x = b_id b" bs x "\<lambda>_. b"] by simp
qed

lemma replace_keeps: "x \<in> set bs \<Longrightarrow> b_id x \<noteq> b_id b \<Longrightarrow> x \<in> set (replace_bundle b bs)"
  unfolding replace_bundle_def by (rule update_first_other)

lemma replace_distinct:
  assumes "distinct (map b_id bs)" and "x \<in> set (replace_bundle b bs)" and "b_id x = b_id b"
    and "has_id bs (b_id b)"
  shows "x = b"
proof -
  have "distinct (map b_id (replace_bundle b bs))" using assms(1) by simp
  then show ?thesis
    using assms(2,3) replace_has [OF assms(4)] by (metis find_id_eq option.inject)
qed

lemma has_id_replace [simp]: "has_id (replace_bundle b bs) i = has_id bs i"
  by (metis has_id_iff list.set_map map_id_replace)

lemma set_remove_id [simp]: "set (remove_id i bs) = {b \<in> set bs. b_id b \<noteq> i}"
  by (auto simp: remove_id_def)

lemma has_id_remove [simp]: "\<not> has_id (remove_id i bs) i"
  by (auto simp: has_id_iff)

lemma remove_id_subseq: "subseq (remove_id i bs) bs"
  by (simp add: remove_id_def)

text \<open>The invariant of a store: identifiers are unique, the capacity is respected.\<close>

definition well_formed :: "Bundle list \<Rightarrow> nat \<Rightarrow> bool" where
  "well_formed bs cap \<longleftrightarrow> distinct (map b_id bs) \<and> length bs \<le> cap"

lemma well_formed_subseq: "subseq xs ys \<Longrightarrow> well_formed ys cap \<Longrightarrow> well_formed xs cap"
  using list_emb_length by (fastforce simp: well_formed_def intro: subseq_distinct_map)

lemma well_formed_snoc: "well_formed bs cap \<Longrightarrow> \<not> refuses bs cap b \<Longrightarrow> well_formed (bs @ [b]) cap"
  by (auto simp: well_formed_def refuses_def has_id_iff)

lemma well_formed_replace: "well_formed bs cap \<Longrightarrow> well_formed (replace_bundle b bs) cap"
  by (simp add: well_formed_def)

lemma well_formed_remove: "well_formed bs cap \<Longrightarrow> well_formed (remove_id i bs) cap"
  by (rule well_formed_subseq [OF remove_id_subseq])

lemma well_formed_Nil: "well_formed [] cap"
  by (simp add: well_formed_def)

section \<open>A store in any environment\<close>

locale bundle_store =
  fixes view :: "'s \<Rightarrow> Bundle list"
    and step :: "'s \<Rightarrow> 's \<Rightarrow> bool"
    and cap :: "'s \<Rightarrow> nat"
    and valid :: "'s \<Rightarrow> bool"
    and get :: "uuid \<Rightarrow> 's \<Rightarrow> Bundle option \<times> 's"
    and all :: "'s \<Rightarrow> Bundle list \<times> 's"
    and save :: "Bundle \<Rightarrow> 's \<Rightarrow> (bool \<times> 's) option"
    and update :: "Bundle \<Rightarrow> 's \<Rightarrow> (bool \<times> 's) option"
    and delete :: "uuid \<Rightarrow> 's \<Rightarrow> (bool \<times> 's) option"
  assumes step_refl: "step s s"
    and step_trans: "step s s' \<Longrightarrow> step s' s'' \<Longrightarrow> step s s''"
    and step_cap: "step s s' \<Longrightarrow> cap s' = cap s"
    and get_law: "valid s \<Longrightarrow> get i s = (x, s') \<Longrightarrow>
      valid s' \<and> step s s' \<and> view s' = view s \<and> (x = find_id i (view s) \<or> x = None)"
    and all_law: "valid s \<Longrightarrow> all s = (bs, s') \<Longrightarrow>
      valid s' \<and> step s s' \<and> view s' = view s \<and> (bs = view s \<or> bs = [])"
    and save_law: "valid s \<Longrightarrow> save b s = Some (r, s') \<Longrightarrow>
      valid s' \<and> step s s' \<and> (\<exists>base. subseq base (view s) \<and>
        view s' = (if r then base @ [b] else base) \<and> (r \<longrightarrow> \<not> refuses base (cap s) b))"
    and update_law: "valid s \<Longrightarrow> update b s = Some (r, s') \<Longrightarrow>
      valid s' \<and> step s s' \<and> (\<exists>base. (base = view s \<or> base = []) \<and>
        view s' = (if r then replace_bundle b base else view s) \<and> (r \<longrightarrow> \<not> rejects base b))"
    and delete_law: "valid s \<Longrightarrow> delete i s = Some (r, s') \<Longrightarrow>
      valid s' \<and> step s s' \<and> (\<exists>base. (base = view s \<or> base = []) \<and>
        view s' = (if r then remove_id i base else view s) \<and> (r \<longrightarrow> has_id base i))"
    and total: "valid s \<Longrightarrow> save b s \<noteq> None" "valid s \<Longrightarrow> update b s \<noteq> None"
      "valid s \<Longrightarrow> delete i s \<noteq> None"
begin

definition ok :: "'s \<Rightarrow> bool" where
  "ok s \<longleftrightarrow> valid s \<and> well_formed (view s) (cap s)"

lemma get_ok: "ok s \<Longrightarrow> get i s = (x, s') \<Longrightarrow> ok s' \<and> step s s' \<and> view s' = view s"
  using get_law step_cap unfolding ok_def by metis

lemma all_ok: "ok s \<Longrightarrow> all s = (bs, s') \<Longrightarrow> ok s' \<and> step s s' \<and> view s' = view s"
  using all_law step_cap unfolding ok_def by metis

lemma save_ok:
  assumes "ok s" and "save b s = Some (r, s')"
  shows "ok s' \<and> step s s' \<and> set (view s') \<subseteq> insert b (set (view s))"
proof -
  from assms(1) have valid: "valid s" and wf: "well_formed (view s) (cap s)" by (simp_all add: ok_def)
  from save_law [OF valid assms(2)] obtain base where v: "valid s'" "step s s'"
    and base: "subseq base (view s)" and w: "view s' = (if r then base @ [b] else base)"
    and ref: "r \<longrightarrow> \<not> refuses base (cap s) b" by blast
  from base wf have "well_formed base (cap s)" by (rule well_formed_subseq)
  then show ?thesis
    using v w ref well_formed_snoc subseq_set [OF base] step_cap by (auto simp: ok_def)
qed

lemma update_ok:
  assumes "ok s" and "update b s = Some (r, s')"
  shows "ok s' \<and> step s s' \<and> set (view s') \<subseteq> insert b (set (view s))"
proof -
  from assms(1) have valid: "valid s" and wf: "well_formed (view s) (cap s)" by (simp_all add: ok_def)
  from update_law [OF valid assms(2)] obtain base where v: "valid s'" "step s s'"
    and base: "base = view s \<or> base = []" and w: "view s' = (if r then replace_bundle b base else view s)"
    by blast
  from base wf have "well_formed base (cap s)" by (auto simp: well_formed_Nil)
  then show ?thesis
    using v w wf base set_replace_subset [of b base] step_cap [OF v(2)]
    by (auto simp: ok_def well_formed_replace)
qed

lemma delete_ok:
  assumes "ok s" and "delete i s = Some (r, s')"
  shows "ok s' \<and> step s s' \<and> set (view s') \<subseteq> set (view s)"
proof -
  from assms(1) have valid: "valid s" and wf: "well_formed (view s) (cap s)" by (simp_all add: ok_def)
  from delete_law [OF valid assms(2)] obtain base where v: "valid s'" "step s s'"
    and base: "base = view s \<or> base = []" and w: "view s' = (if r then remove_id i base else view s)"
    by blast
  from base wf have "well_formed base (cap s)" by (auto simp: well_formed_Nil)
  then show ?thesis using v w wf base step_cap [OF v(2)] by (auto simp: ok_def well_formed_remove)
qed

text \<open>A data bundle that was stored or updated has no acknowledgement in the store.\<close>

lemma saved_data_unacked:
  assumes "valid s" and "save b s = Some (True, s')" and "is_Data (b_kind b)"
  shows "b \<in> set (view s')" and "\<not> has_ack (view s') (b_id b)"
  using save_law [OF assms(1,2)] assms(3)
  by (auto simp: refuses_def has_ack_iff)

lemma updated_data_unacked:
  assumes "valid s" and "update b s = Some (True, s')" and "is_Data (b_kind b)"
  shows "b \<in> set (view s')" and "\<not> has_ack (view s') (b_id b)"
proof -
  from update_law [OF assms(1,2)] obtain base where w: "view s' = replace_bundle b base"
    and n: "\<not> rejects base b" by auto
  from n assms(3) have i: "has_id base (b_id b)" and a: "\<not> has_ack base (b_id b)"
    by (simp_all add: rejects_def)
  show "b \<in> set (view s')" using replace_has [OF i] by (simp add: w)
  show "\<not> has_ack (view s') (b_id b)"
    using a set_replace_subset [of b base] assms(3) by (auto simp: w has_ack_iff)
qed

end

text \<open>The clients' call sequences: \<open>upsert\<close> and the cleanup after an acknowledgement.\<close>

context bundle_store
begin

lemma upsert_ok:
  assumes "ok s" and "get i s = (x, s1)"
    and "(if x \<noteq> None then update b s1 else save b s1) = Some (r, s')"
  shows "ok s' \<and> step s s' \<and> set (view s') \<subseteq> insert b (set (view s))"
proof -
  from get_ok [OF assms(1,2)] have s1: "ok s1" and st: "step s s1" and v: "view s1 = view s" by simp_all
  show ?thesis
  proof (cases "x = None")
    case True
    with assms(3) save_ok [OF s1] v step_trans [OF st] show ?thesis by simp
  next
    case False
    with assms(3) update_ok [OF s1] v step_trans [OF st] show ?thesis by simp
  qed
qed

lemma settle_ok:
  assumes "ok s" and "get d s = (x, s1)"
    and "(case x of
            Some data \<Rightarrow> do { (_, s) \<leftarrow> update (f data) s1; (_, s) \<leftarrow> delete d s; Some s }
          | None \<Rightarrow> Some s1) = Some s'"
  shows "ok s' \<and> step s s' \<and> set (view s') \<subseteq> set (view s) \<union> f ` {b \<in> set (view s). b_id b = d}"
proof -
  from get_ok [OF assms(1,2)] have s1: "ok s1" and st: "step s s1" and v: "view s1 = view s" by simp_all
  have x: "x = find_id d (view s) \<or> x = None" using get_law [OF _ assms(2)] assms(1) by (simp add: ok_def)
  show ?thesis
  proof (cases x)
    case None
    with assms(3) s1 v st show ?thesis by simp
  next
    case (Some data)
    then have data: "data \<in> set (view s)" "b_id data = d" using x find_id_Some by force+
    from assms(3) Some obtain r s2 q where u: "update (f data) s1 = Some (r, s2)"
      and d: "delete d s2 = Some (q, s')" by (auto simp: bind_eq_Some_conv)
    from update_ok [OF s1 u] v have s2: "ok s2" and "step s1 s2"
      and "set (view s2) \<subseteq> insert (f data) (set (view s))" by simp_all
    moreover from delete_ok [OF s2 d] have "ok s'" "step s2 s'" and "set (view s') \<subseteq> set (view s2)"
      by simp_all
    ultimately show ?thesis using data st step_trans by blast
  qed
qed

lemma settle_total:
  assumes "ok s" and "get d s = (x, s1)"
  shows "\<exists>s'. (case x of
            Some data \<Rightarrow> do { (_, s) \<leftarrow> update (f data) s1; (_, s) \<leftarrow> delete d s; Some s }
          | None \<Rightarrow> Some s1) = Some s'"
proof (cases x)
  case (Some data)
  from get_ok [OF assms] have s1: "ok s1" by simp
  then obtain r s2 where u: "update (f data) s1 = Some (r, s2)"
    using total(2) by (metis ok_def not_None_eq old.prod.exhaust)
  with update_ok [OF s1] have "ok s2" by simp
  then obtain q s3 where "delete d s2 = Some (q, s3)"
    using total(3) by (metis ok_def not_None_eq old.prod.exhaust)
  with u Some show ?thesis by simp
qed simp

end

section \<open>A store on a working disk\<close>

locale reliable_store = bundle_store view step cap valid get all save update delete
  for view :: "'s \<Rightarrow> Bundle list"
    and step :: "'s \<Rightarrow> 's \<Rightarrow> bool"
    and cap :: "'s \<Rightarrow> nat"
    and valid :: "'s \<Rightarrow> bool"
    and get :: "uuid \<Rightarrow> 's \<Rightarrow> Bundle option \<times> 's"
    and all :: "'s \<Rightarrow> Bundle list \<times> 's"
    and save :: "Bundle \<Rightarrow> 's \<Rightarrow> (bool \<times> 's) option"
    and update :: "Bundle \<Rightarrow> 's \<Rightarrow> (bool \<times> 's) option"
    and delete :: "uuid \<Rightarrow> 's \<Rightarrow> (bool \<times> 's) option" +
  fixes live :: "'s \<Rightarrow> bool"
    and sweep :: "'s \<Rightarrow> Bundle list"
  assumes live_valid: "live s \<Longrightarrow> valid s"
    and sweep_view: "live s \<Longrightarrow> subseq (sweep s) (view s)"
    and get_exact: "live s \<Longrightarrow> get i s = (x, s') \<Longrightarrow> live s' \<and> x = find_id i (view s)"
    and all_exact: "live s \<Longrightarrow> all s = (bs, s') \<Longrightarrow> live s' \<and> bs = view s"
    and save_exact: "live s \<Longrightarrow> save b s = Some (r, s') \<Longrightarrow> live s' \<and>
      r = (\<not> refuses (sweep s) (cap s) b) \<and> view s' = (if r then sweep s @ [b] else sweep s)"
    and update_exact: "live s \<Longrightarrow> update b s = Some (r, s') \<Longrightarrow> live s' \<and>
      r = (\<not> rejects (view s) b) \<and> view s' = (if r then replace_bundle b (view s) else view s)"
    and delete_exact: "live s \<Longrightarrow> delete i s = Some (r, s') \<Longrightarrow> live s' \<and>
      r = has_id (view s) i \<and> view s' = remove_id i (view s)"
begin

text \<open>
  Marking the acknowledged bundle as delivered and deleting it leaves the view without it.
\<close>

lemma settle_exact:
  assumes "live s" and "get d s = (x, s1)"
    and "(case x of
            Some data \<Rightarrow> do { (_, s) \<leftarrow> update (f data) s1; (_, s) \<leftarrow> delete d s; Some s }
          | None \<Rightarrow> Some s1) = Some s'"
    and "\<And>b. b_id (f b) = b_id b"
  shows "live s' \<and> step s s' \<and> view s' = remove_id d (view s)"
proof -
  note g = get_exact [OF assms(1,2)] get_law [OF live_valid [OF assms(1)] assms(2)]
  show ?thesis
  proof (cases x)
    case None
    then have "\<not> has_id (view s) d" using g find_id_None by metis
    then have "remove_id d (view s) = view s"
      by (auto simp: remove_id_def has_id_iff intro!: filter_True)
    with None assms(3) g show ?thesis by simp
  next
    case (Some data)
    then have id: "b_id data = d" using g find_id_Some by force
    from assms(3) Some obtain r s2 q where u: "update (f data) s1 = Some (r, s2)"
      and d: "delete d s2 = Some (q, s')" by (auto simp: bind_eq_Some_conv)
    have s1: "live s1" "view s1 = view s" "step s s1" using g by simp_all
    note u = update_exact [OF s1(1) u] update_law [OF live_valid [OF s1(1)] u]
    then have s2: "live s2" "step s s2" using s1 step_trans by blast+
    have "remove_id d (view s2) = remove_id d (view s)"
    proof (cases r)
      case True
      have "remove_id d (replace_bundle (f data) bs) = remove_id d bs" for bs
        using id assms(4) by (induction bs) (auto simp: remove_id_def replace_bundle_def)
      with True u s1 show ?thesis by simp
    next
      case False
      with u s1 show ?thesis by simp
    qed
    with delete_exact [OF s2(1) d] delete_law [OF live_valid [OF s2(1)] d] step_trans [OF s2(2)]
    show ?thesis by simp
  qed
qed

end

end
