(* ===== verification/Sample_Env.thy ===== *)
theory Sample_Env
  imports Bundle_Ops
begin

text \<open>
  A concrete environment for the witnesses: the third-party parameters of \<open>env\<close>
  instantiated by small executable functions that satisfy \<open>serde_laws\<close> and
  \<open>io_ok\<close>. It is an instance for evaluating theorems and no model of the
  libraries. Bundles are written as lists of numbers, numbers as strings in unary.
\<close>

section \<open>Numbers as text\<close>

definition text_of :: "nat list \<Rightarrow> string" where
  "text_of ns = concat (map (\<lambda>n. replicate n (CHR ''1'') @ ''0'') ns)"

fun nums_of :: "nat \<Rightarrow> string \<Rightarrow> nat list" where
  "nums_of k [] = []"
| "nums_of k (c # cs) = (if c = CHR ''1'' then nums_of (Suc k) cs else k # nums_of 0 cs)"

lemma nums_of_replicate: "nums_of k (replicate n (CHR ''1'') @ cs) = nums_of (k + n) cs"
  by (induction n arbitrary: k) auto

lemma nums_of_text [simp]: "nums_of 0 (text_of ns) = ns"
  by (induction ns) (simp_all add: text_of_def nums_of_replicate)

section \<open>Lists of strings\<close>

fun put_strings :: "string list \<Rightarrow> nat list" where
  "put_strings [] = []"
| "put_strings (s # ss) = length s # map of_char s @ put_strings ss"

function get_strings :: "nat list \<Rightarrow> string list" where
  "get_strings [] = []"
| "get_strings (n # ns) = map char_of (take n ns) # get_strings (drop n ns)"
  by pat_completeness auto
termination
  by (relation "measure length") auto

lemma get_put_strings [simp]: "get_strings (put_strings ss) = ss"
  by (induction ss) (simp_all add: comp_def)

section \<open>Bundles as numbers\<close>

definition reads :: "('a \<Rightarrow> nat list) \<Rightarrow> (nat list \<Rightarrow> ('a \<times> nat list) option) \<Rightarrow> bool" where
  "reads put get \<longleftrightarrow> (\<forall>x rest. get (put x @ rest) = Some (x, rest))"

lemma readsD: "reads put get \<Longrightarrow> get (put x @ rest) = Some (x, rest)"
  by (simp add: reads_def)

fun get_nat :: "nat list \<Rightarrow> (nat \<times> nat list) option" where
  "get_nat [] = None"
| "get_nat (n # ns) = Some (n, ns)"

definition get_word :: "nat list \<Rightarrow> ('a::len word \<times> nat list) option" where
  "get_word ns = do { (n, ns) \<leftarrow> get_nat ns; Some (of_nat n, ns) }"

definition put_int :: "int \<Rightarrow> nat list" where
  "put_int i = [if i < 0 then 1 else 0, nat \<bar>i\<bar>]"

definition get_int :: "nat list \<Rightarrow> (int \<times> nat list) option" where
  "get_int ns = do { (s, ns) \<leftarrow> get_nat ns; (n, ns) \<leftarrow> get_nat ns;
     Some (if s = 1 then - int n else int n, ns) }"

fun get_many :: "(nat list \<Rightarrow> ('a \<times> nat list) option) \<Rightarrow> nat \<Rightarrow> nat list \<Rightarrow> ('a list \<times> nat list) option" where
  "get_many g 0 ns = Some ([], ns)"
| "get_many g (Suc k) ns = do { (x, ns) \<leftarrow> g ns; (xs, ns) \<leftarrow> get_many g k ns; Some (x # xs, ns) }"

definition put_list :: "('a \<Rightarrow> nat list) \<Rightarrow> 'a list \<Rightarrow> nat list" where
  "put_list p xs = length xs # concat (map p xs)"

definition get_list :: "(nat list \<Rightarrow> ('a \<times> nat list) option) \<Rightarrow> nat list \<Rightarrow> ('a list \<times> nat list) option" where
  "get_list g ns = do { (k, ns) \<leftarrow> get_nat ns; get_many g k ns }"

lemma reads_word: "reads (\<lambda>w. [unat w]) get_word"
  by (simp add: reads_def get_word_def)

lemma get_word_Cons: "get_word (unat w # ns) = Some (w, ns)"
  by (simp add: get_word_def)

lemma reads_int: "reads put_int get_int"
  by (simp add: reads_def put_int_def get_int_def)

lemma reads_list: "reads p g \<Longrightarrow> reads (put_list p) (get_list g)"
proof -
  assume r: "reads p g"
  have "get_many g (length xs) (concat (map p xs) @ rest) = Some (xs, rest)" for xs rest
    by (induction xs) (simp_all add: readsD [OF r])
  then show ?thesis by (simp add: reads_def put_list_def get_list_def)
qed

definition get_char :: "nat list \<Rightarrow> (char \<times> nat list) option" where
  "get_char ns = do { (n, ns) \<leftarrow> get_nat ns; Some (char_of n, ns) }"

lemma reads_char: "reads (\<lambda>c. [of_char c]) get_char"
  by (simp add: reads_def get_char_def)

abbreviation "put_word \<equiv> \<lambda>w. [unat w]"
abbreviation "put_string \<equiv> put_list (\<lambda>c. [of_char c])"
abbreviation "get_string \<equiv> get_list get_char"
abbreviation "put_words \<equiv> put_list put_word"
abbreviation "get_words \<equiv> get_list get_word"

definition put_node :: "Node \<Rightarrow> nat list" where
  "put_node n = put_word (n_id n) @ put_string (n_name n) @ put_string (n_address n) @
     put_word (n_port n) @ put_words (n_peers n)"

definition get_node :: "nat list \<Rightarrow> (Node \<times> nat list) option" where
  "get_node ns = do { (i, ns) \<leftarrow> get_word ns; (m, ns) \<leftarrow> get_string ns; (a, ns) \<leftarrow> get_string ns;
     (p, ns) \<leftarrow> get_word ns; (ps, ns) \<leftarrow> get_words ns;
     Some (\<lparr>n_id = i, n_name = m, n_address = a, n_port = p, n_peers = ps\<rparr>, ns) }"

lemmas reads_basic = get_word_Cons reads_int [THEN readsD]
  reads_list [OF reads_char, THEN readsD] reads_list [OF reads_word, THEN readsD]

lemma reads_node: "reads put_node get_node"
  unfolding reads_def put_node_def get_node_def append_assoc by (simp add: reads_basic)

fun put_kind :: "BundleKind \<Rightarrow> nat list" where
  "put_kind (Data m) = 0 # put_string m"
| "put_kind (Ack i) = 1 # put_word i"
| "put_kind (RequestSV i) = 2 # put_word i"
| "put_kind (SummaryVector is) = 3 # put_words is"

definition get_kind :: "nat list \<Rightarrow> (BundleKind \<times> nat list) option" where
  "get_kind ns = do { (t, ns) \<leftarrow> get_nat ns;
     if t = 0 then do { (m, ns) \<leftarrow> get_string ns; Some (Data m, ns) }
     else if t = 1 then do { (i, ns) \<leftarrow> get_word ns; Some (Ack i, ns) }
     else if t = 2 then do { (i, ns) \<leftarrow> get_word ns; Some (RequestSV i, ns) }
     else do { (is, ns) \<leftarrow> get_words ns; Some (SummaryVector is, ns) } }"

lemma reads_kind: "reads put_kind get_kind"
  unfolding reads_def
proof (intro allI)
  fix k rest
  show "get_kind (put_kind k @ rest) = Some (k, rest)"
    by (cases k) (simp_all add: get_kind_def reads_basic)
qed

definition status_of :: "nat \<Rightarrow> MsgStatus" where
  "status_of n = (if n = 0 then Pending else if n = 1 then InTransit else if n = 2 then Delivered
     else Expired)"

lemma status_of_rank [simp]: "status_of (status_rank s) = s"
  by (cases s) (simp_all add: status_of_def)

definition put_bundle :: "Bundle \<Rightarrow> nat list" where
  "put_bundle b = put_word (b_id b) @ put_node (b_source b) @ put_node (b_destination b) @
     put_int (b_timestamp b) @ put_word (b_ttl b) @ put_kind (b_kind b) @ [status_rank (b_status b)]"

definition get_a_bundle :: "nat list \<Rightarrow> (Bundle \<times> nat list) option" where
  "get_a_bundle ns = do { (i, ns) \<leftarrow> get_word ns; (s, ns) \<leftarrow> get_node ns; (d, ns) \<leftarrow> get_node ns;
     (t, ns) \<leftarrow> get_int ns; (l, ns) \<leftarrow> get_word ns; (k, ns) \<leftarrow> get_kind ns; (st, ns) \<leftarrow> get_nat ns;
     Some (\<lparr>b_id = i, b_source = s, b_destination = d, b_timestamp = t, b_ttl = l, b_kind = k,
       b_status = status_of st\<rparr>, ns) }"

lemma reads_bundle: "reads put_bundle get_a_bundle"
  unfolding reads_def put_bundle_def get_a_bundle_def append_assoc
  by (simp add: reads_basic readsD [OF reads_node] readsD [OF reads_kind])

section \<open>Messages as bytes\<close>

definition put_pb :: "ProtobufBundle \<Rightarrow> nat list" where
  "put_pb p = put_string (pb_id p) @ put_string (pb_source_id p) @ put_string (pb_source_name p) @
     put_string (pb_source_address p) @ put_word (pb_source_port p) @
     put_list put_string (pb_source_peers p) @ put_string (pb_destination_id p) @
     put_string (pb_destination_name p) @ put_string (pb_destination_address p) @
     put_word (pb_destination_port p) @ put_list put_string (pb_destination_peers p) @
     put_int (pb_timestamp p) @ put_word (pb_ttl p) @ put_int (pb_kind p) @
     put_string (pb_kind_data p) @ put_int (pb_shipment_status p)"

definition get_pb :: "nat list \<Rightarrow> (ProtobufBundle \<times> nat list) option" where
  "get_pb ns = do { (i, ns) \<leftarrow> get_string ns; (si, ns) \<leftarrow> get_string ns; (sn, ns) \<leftarrow> get_string ns;
     (sa, ns) \<leftarrow> get_string ns; (sp, ns) \<leftarrow> get_word ns; (ss, ns) \<leftarrow> get_list get_string ns;
     (di, ns) \<leftarrow> get_string ns; (dn, ns) \<leftarrow> get_string ns; (da, ns) \<leftarrow> get_string ns;
     (dp, ns) \<leftarrow> get_word ns; (ds, ns) \<leftarrow> get_list get_string ns; (t, ns) \<leftarrow> get_int ns;
     (l, ns) \<leftarrow> get_word ns; (k, ns) \<leftarrow> get_int ns; (kd, ns) \<leftarrow> get_string ns; (st, ns) \<leftarrow> get_int ns;
     Some (\<lparr>pb_id = i, pb_source_id = si, pb_source_name = sn, pb_source_address = sa,
       pb_source_port = sp, pb_source_peers = ss, pb_destination_id = di, pb_destination_name = dn,
       pb_destination_address = da, pb_destination_port = dp, pb_destination_peers = ds,
       pb_timestamp = t, pb_ttl = l, pb_kind = k, pb_kind_data = kd, pb_shipment_status = st\<rparr>, ns) }"

lemma reads_pb: "reads put_pb get_pb"
  unfolding reads_def put_pb_def get_pb_def append_assoc
  by (simp add: reads_basic readsD [OF reads_list [OF reads_list [OF reads_char]]])

definition bytes_of :: "nat list \<Rightarrow> byte list" where
  "bytes_of ns = map (\<lambda>c. of_nat (of_char c)) (text_of ns)"

definition nums_of_bytes :: "byte list \<Rightarrow> nat list" where
  "nums_of_bytes bs = nums_of 0 (map (\<lambda>b. char_of (unat b)) bs)"

lemma nums_of_bytes [simp]: "nums_of_bytes (bytes_of ns) = ns"
proof -
  have "unat (of_nat (of_char c) :: byte) = of_char c" for c :: char
    using nat_of_char_less_256 [of c] by (simp add: unsigned_of_nat take_bit_nat_eq_self)
  then have "map (\<lambda>b. char_of (unat b)) (bytes_of ns) = text_of ns" by (simp add: bytes_of_def comp_def)
  then show ?thesis by (simp add: nums_of_bytes_def)
qed

lemma length_text_of: "length (text_of ns) = sum_list ns + length ns"
  by (induction ns) (simp_all add: text_of_def)

lemma length_bytes_of [simp]: "length (bytes_of ns) = sum_list ns + length ns"
  by (simp add: bytes_of_def length_text_of)

section \<open>The environment\<close>

definition sample_parse_uuid :: "string \<Rightarrow> uuid option" where
  "sample_parse_uuid s =
     (if s = namespace_text then Some 0x6ba7b8109dad11d180b400c04fd430c8
      else (case nums_of 0 s of [n] \<Rightarrow> Some (of_nat n) | _ \<Rightarrow> None))"

definition sample_env :: "string env" where
  "sample_env = \<lparr>
     now = (\<lambda>n. 1000 + int n), age_seconds = (\<lambda>t u. t - u), timestamp_seconds = (\<lambda>t. t),
     from_timestamp = Some, default_datetime = 0,
     new_v4 = (\<lambda>n. of_nat (1000 + n)), new_v5 = (\<lambda>ns name. of_nat (length name)),
     uuid_to_string = (\<lambda>u. text_of [unat u]), uuid_parse_str = sample_parse_uuid,
     json_of_bundle = (\<lambda>b. Some (text_of (put_bundle b))),
     bundle_of_json = (\<lambda>v. map_option fst (get_a_bundle (nums_of 0 v))),
     json_object = (\<lambda>k vs. text_of (put_strings vs)),
     json_get = (\<lambda>v k. Some v), json_as_array = (\<lambda>v. Some (get_strings (nums_of 0 v))),
     json_to_string_pretty = Some, json_from_str = Some,
     kind_to_vec = (\<lambda>k. Some (0x7b # bytes_of (put_kind k))),
     kind_from_slice = (\<lambda>bs. map_option fst (get_kind (nums_of_bytes (tl bs)))),
     request_to_vec = (\<lambda>r. Some []), request_from_slice = (\<lambda>bs. None),
     response_to_vec = (\<lambda>r. Some []), response_from_slice = (\<lambda>bs. None),
     request_error_text = (\<lambda>bs. ''error''),
     write_to_bytes = (\<lambda>p. Some (bytes_of (put_pb p))),
     parse_from_bytes = (\<lambda>bs. map_option fst (get_pb (nums_of_bytes bs))),
     io_mkdir = (\<lambda>n. True), io_read = (\<lambda>n. True), io_create = (\<lambda>n. True), io_write = (\<lambda>n. None),
     io_sync = (\<lambda>n. True), io_rename = (\<lambda>n. True), io_error_text = (\<lambda>n. ''error''),
     tcp_connect = (\<lambda>n a. True), tcp_incoming = (\<lambda>n a. []), tcp_read = (\<lambda>n. True),
     tcp_chunk = (\<lambda>n. 1), tcp_write = (\<lambda>n. None),
     manifest_dir = ''/home'', runtime_build = (\<lambda>n. True), console = (\<lambda>n. True)\<rparr>"

definition sample_world :: world where
  "sample_world = \<lparr>disk = Map.empty, dirs = (\<lambda>_. False), tick = 0, slept = 0, sent = [], frames = [], answered = [], unsynced = {}\<rparr>"

lemma sample_serde_laws: "serde_laws sample_env"
proof -
  have "get_a_bundle (put_bundle b) = Some (b, [])" for b
    using readsD [OF reads_bundle, of b "[]"] by simp
  then show ?thesis by (simp add: serde_laws_def sample_env_def)
qed

lemma sample_io_ok: "io_ok sample_env"
  by (simp add: io_ok_def sample_env_def)

text \<open>Two nodes and a data bundle from one to the other.\<close>

definition sample_node :: "uuid \<Rightarrow> string \<Rightarrow> Node" where
  "sample_node i name = \<lparr>n_id = i, n_name = name, n_address = ''127.0.0.1'', n_port = 9001, n_peers = []\<rparr>"

definition sample_bundle :: Bundle where
  "sample_bundle = \<lparr>b_id = 7, b_source = sample_node 1 ''alice'', b_destination = sample_node 2 ''bob'',
     b_timestamp = 1000, b_ttl = 60, b_kind = Data ''hello'', b_status = Pending\<rparr>"

end
