(* ===== verification/Storage_Facts.thy ===== *)
theory Storage_Facts
  imports Storage Store_Interface Sample_Env
begin

text \<open>
  The lemmas of the storage component: what one replacement of the file does, with and
  without failures; what every operation does to the bundles in the file.
\<close>

section \<open>The two paths\<close>

lemma tmp_neq_bundles_file [simp]: "tmp_file dir \<noteq> bundles_file dir" "bundles_file dir \<noteq> tmp_file dir"
  by (auto simp: tmp_file_def bundles_file_def path_join_def is_relative_def)

section \<open>What the file holds\<close>

definition disk_bundles :: "'v env \<Rightarrow> string \<Rightarrow> world \<Rightarrow> Bundle list" where
  "disk_bundles E dir W =
     (case disk W (bundles_file dir) of None \<Rightarrow> [] | Some c \<Rightarrow> parse_bundles E c)"

text \<open>What an operation on the store of \<open>dir\<close> never touches.\<close>

definition store_frame :: "string \<Rightarrow> world \<Rightarrow> world \<Rightarrow> bool" where
  "store_frame dir W W' \<longleftrightarrow>
     (\<forall>p. p \<noteq> bundles_file dir \<and> p \<noteq> tmp_file dir \<longrightarrow> disk W' p = disk W p) \<and>
     dirs W' = dirs W \<and> slept W' = slept W \<and> sent W' = sent W \<and> frames W' = frames W \<and>
     answered W' = answered W \<and> tick W \<le> tick W'"

lemma store_frame_refl [simp]: "store_frame dir W W"
  by (simp add: store_frame_def)

lemma store_frame_trans [trans]:
  "store_frame dir W W' \<Longrightarrow> store_frame dir W' W'' \<Longrightarrow> store_frame dir W W''"
  by (auto simp: store_frame_def)

lemma later_store_frame: "later W W' \<Longrightarrow> store_frame dir W W'"
  by (auto simp: store_frame_def later_fields) (simp add: later_def)

lemma later_disk_bundles: "later W W' \<Longrightarrow> disk_bundles E dir W' = disk_bundles E dir W"
  by (simp add: disk_bundles_def later_fields)

lemma disk_bundles_other_dir:
  assumes "store_frame dir W W'" and "bundles_file dir' \<noteq> bundles_file dir"
    and "bundles_file dir' \<noteq> tmp_file dir"
  shows "disk_bundles E dir' W' = disk_bundles E dir' W"
  using assms by (simp add: disk_bundles_def store_frame_def)

section \<open>Loading\<close>

lemma load_cases:
  assumes "load_bundles_from_file E dir W = (bs, W')"
  obtains "later W W'" and "bs = disk_bundles E dir W \<or> bs = []"
  using assms
  by (auto simp: load_bundles_from_file_def disk_bundles_def fs_defs later_def tock_def
      split: if_splits option.splits prod.splits)

lemma load_ok:
  assumes "io_ok E"
  shows "load_bundles_from_file E dir W =
    (disk_bundles E dir W, if disk W (bundles_file dir) = None then W else tock W)"
  using assms
  by (auto simp: load_bundles_from_file_def disk_bundles_def fs_defs io_ok_def split: option.splits)

lemma refresh_cases:
  assumes "refresh_from_disk E (L, W) = (L', W')"
  obtains "later W W'" and "L' = L\<lparr>bundles := bundles L'\<rparr>"
    and "bundles L' = disk_bundles E (storage_dir L) W \<or> bundles L' = []"
proof -
  obtain bs where "load_bundles_from_file E (storage_dir L) W = (bs, W')" "L' = L\<lparr>bundles := bs\<rparr>"
    using assms by (auto simp: refresh_from_disk_def split: prod.splits)
  then show ?thesis using that by (auto elim!: load_cases)
qed

lemma refresh_ok:
  assumes "io_ok E"
  shows "refresh_from_disk E (L, W) =
    (L\<lparr>bundles := disk_bundles E (storage_dir L) W\<rparr>,
     if disk W (bundles_file (storage_dir L)) = None then W else tock W)"
  by (simp add: refresh_from_disk_def load_ok [OF assms])

section \<open>Replacing the file\<close>

text \<open>A reader sees the old contents or the whole new ones, wherever the chain stops.\<close>

lemma write_prefix_atomic:
  "snd (run_io (take k (write_steps E dir payload)) W) = W' \<Longrightarrow>
   store_frame dir W W' \<and>
   (disk W' (bundles_file dir) = disk W (bundles_file dir) \<or> disk W' (bundles_file dir) = Some payload)"
  by (auto simp: write_steps_def fs_defs store_frame_def take_Cons' split: if_splits option.splits)

text \<open>The file itself is never one that is not synced.\<close>

lemma write_prefix_synced:
  "snd (run_io (take k (write_steps E dir payload)) W) = W' \<Longrightarrow> bundles_file dir \<notin> unsynced W \<Longrightarrow>
   bundles_file dir \<notin> unsynced W'"
  by (auto simp: write_steps_def fs_defs take_Cons' split: if_splits option.splits)

text \<open>The whole chain: on success the new contents are there, on failure the old ones.\<close>

lemma write_steps_result:
  assumes "run_io (write_steps E dir payload) W = (ok, W')"
  shows "store_frame dir W W'"
    and "disk W' (bundles_file dir) = (if ok then Some payload else disk W (bundles_file dir))"
  using assms
  by (auto simp: write_steps_def fs_defs store_frame_def split: if_splits option.splits)

lemma write_steps_ok:
  assumes "io_ok E"
  shows "fst (run_io (write_steps E dir payload) W)"
  using assms by (simp add: write_steps_def fs_defs io_ok_def)

lemma payload_parse:
  assumes "serde_laws E" and "payload_of E bs = Some c"
  shows "parse_bundles E c = bs"
proof -
  let ?vs = "filter_map (json_of_bundle E) bs"
  have rt: "filter_map (bundle_of_json E) ?vs = bs"
    using serde_bundle [OF assms(1)] by (rule filter_map_roundtrip)
  from serde_print [OF assms(1), of "''bundles''" ?vs]
  have "json_from_str E c = Some (json_object E ''bundles'' ?vs)"
    using assms(2) unfolding payload_of_def by (metis option.inject)
  then show ?thesis
    using serde_get [OF assms(1), of "''bundles''" ?vs] rt by (simp add: parse_bundles_def)
qed

lemma payload_total:
  assumes "serde_laws E"
  obtains c where "payload_of E bs = Some c"
  using serde_print [OF assms] unfolding payload_of_def by metis

lemma save_to_file_eq:
  "save_to_file E (L, W) =
     (case payload_of E (bundles L) of None \<Rightarrow> None
      | Some c \<Rightarrow> (case run_io (write_steps E (storage_dir L) c) W of
          (ok, W') \<Rightarrow> Some (if ok then Inr () else Inl (SerializationError
            (''Failed to write bundles.json: '' @ io_error_text E (tick W'))), (L, W'))))"
  by (cases "payload_of E (bundles L)") (simp_all add: save_to_file_def Let_def)

lemma save_to_file_cases:
  assumes "save_to_file E (L, W) = Some (r, s')"
  obtains c ok W' where "payload_of E (bundles L) = Some c"
    and "run_io (write_steps E (storage_dir L) c) W = (ok, W')" and "saved r = ok" and "s' = (L, W')"
proof -
  from assms obtain c where c: "payload_of E (bundles L) = Some c"
    by (auto simp: save_to_file_eq split: option.splits)
  obtain ok W' where run: "run_io (write_steps E (storage_dir L) c) W = (ok, W')"
    by (cases "run_io (write_steps E (storage_dir L) c) W")
  show ?thesis using that [OF c run] assms by (auto simp: save_to_file_eq c run split: if_splits)
qed

lemma save_to_file_result:
  assumes "serde_laws E" and "save_to_file E (L, W) = Some (r, s')"
  shows "fst s' = L" and "store_frame (storage_dir L) W (snd s')"
    and "disk_bundles E (storage_dir L) (snd s') =
      (if saved r then bundles L else disk_bundles E (storage_dir L) W)"
proof -
  from assms(2) obtain c ok W' where c: "payload_of E (bundles L) = Some c"
    and run: "run_io (write_steps E (storage_dir L) c) W = (ok, W')"
    and r: "saved r = ok" and s': "s' = (L, W')"
    by (rule save_to_file_cases)
  show "fst s' = L" by (simp add: s')
  show "store_frame (storage_dir L) W (snd s')" using write_steps_result(1) [OF run] by (simp add: s')
  show "disk_bundles E (storage_dir L) (snd s') =
      (if saved r then bundles L else disk_bundles E (storage_dir L) W)"
    using write_steps_result(2) [OF run] payload_parse [OF assms(1) c] r
    by (simp add: disk_bundles_def s')
qed

lemma save_to_file_total:
  assumes "serde_laws E"
  obtains r s' where "save_to_file E s = Some (r, s')"
proof -
  obtain L W where s: "s = (L, W)" by (cases s)
  obtain c where "payload_of E (bundles L) = Some c" using payload_total [OF assms] .
  then show ?thesis
    using that by (cases "run_io (write_steps E (storage_dir L) c) W") (simp add: s save_to_file_eq)
qed

lemma save_to_file_ok:
  assumes "io_ok E" and "save_to_file E (L, W) = Some (r, s')"
  shows "saved r"
  using assms(2) write_steps_ok [OF assms(1)] by (metis fst_conv save_to_file_cases)

section \<open>One step of a store\<close>

definition store_view :: "'v env \<Rightarrow> store \<Rightarrow> Bundle list" where
  "store_view E s = disk_bundles E (storage_dir (fst s)) (snd s)"

definition store_step :: "store \<Rightarrow> store \<Rightarrow> bool" where
  "store_step s s' \<longleftrightarrow>
     storage_dir (fst s') = storage_dir (fst s) \<and> capacity (fst s') = capacity (fst s) \<and>
     store_frame (storage_dir (fst s)) (snd s) (snd s')"

lemma store_step_refl [simp]: "store_step s s"
  by (simp add: store_step_def)

lemma store_step_trans [trans]: "store_step s s' \<Longrightarrow> store_step s' s'' \<Longrightarrow> store_step s s''"
  by (auto simp: store_step_def intro: store_frame_trans)

lemma store_step_memory: "store_step (L, W) s \<Longrightarrow> store_step (L\<lparr>bundles := bs\<rparr>, W) s"
  "store_step s (L, W) \<Longrightarrow> store_step s (L\<lparr>bundles := bs\<rparr>, W)"
  by (simp_all add: store_step_def)

lemma store_view_memory [simp]: "store_view E (L\<lparr>bundles := bs\<rparr>, W) = store_view E (L, W)"
  by (simp add: store_view_def)

lemma refresh_step:
  shows "store_step s (refresh_from_disk E s)"
    and "store_view E (refresh_from_disk E s) = store_view E s"
    and "bundles (fst (refresh_from_disk E s)) = store_view E s \<or>
      bundles (fst (refresh_from_disk E s)) = []"
    and "subseq (bundles (fst (refresh_from_disk E s))) (store_view E s)"
    and "later (snd s) (snd (refresh_from_disk E s))"
proof -
  obtain L W where s: "s = (L, W)" by (cases s)
  obtain L' W' where r: "refresh_from_disk E (L, W) = (L', W')" by (cases "refresh_from_disk E (L, W)")
  obtain l: "later W W'" and L': "L' = L\<lparr>bundles := bundles L'\<rparr>"
    and bs: "bundles L' = disk_bundles E (storage_dir L) W \<or> bundles L' = []"
    using r by (rule refresh_cases)
  have dir: "storage_dir L' = storage_dir L" "capacity L' = capacity L"
    by (subst L', simp)+
  show "store_step s (refresh_from_disk E s)"
    using l dir by (simp add: store_step_def s r later_store_frame)
  show "store_view E (refresh_from_disk E s) = store_view E s"
    using l dir by (simp add: store_view_def s r later_disk_bundles)
  show "bundles (fst (refresh_from_disk E s)) = store_view E s \<or>
      bundles (fst (refresh_from_disk E s)) = []"
    using bs by (simp add: store_view_def s r)
  then show "subseq (bundles (fst (refresh_from_disk E s))) (store_view E s)" by auto
  show "later (snd s) (snd (refresh_from_disk E s))" using l by (simp add: s r)
qed

lemma refresh_exact: "io_ok E \<Longrightarrow> bundles (fst (refresh_from_disk E s)) = store_view E s"
  by (cases s) (simp add: refresh_ok store_view_def)

lemma refresh_tick:
  "io_ok E \<Longrightarrow> tick (snd (refresh_from_disk E (L, W))) =
     tick W + (if disk W (bundles_file (storage_dir L)) = None then 0 else 1)"
  by (simp add: refresh_ok)

lemma save_to_file_step:
  assumes "serde_laws E" and "save_to_file E s = Some (r, s')"
  shows "store_step s s'" and "fst s' = fst s"
    and "store_view E s' = (if saved r then bundles (fst s) else store_view E s)"
proof -
  obtain L W where s: "s = (L, W)" by (cases s)
  note res = save_to_file_result [OF assms(1) assms(2) [unfolded s]]
  show "store_step s s'" and "fst s' = fst s"
    and "store_view E s' = (if saved r then bundles (fst s) else store_view E s)"
    using res by (simp_all add: store_step_def store_view_def s)
qed

section \<open>Removing the expired bundles\<close>

text \<open>What survives when the clock is read once per bundle, from tick \<open>n\<close> on.\<close>

fun unexpired :: "'v env \<Rightarrow> nat \<Rightarrow> Bundle list \<Rightarrow> Bundle list" where
  "unexpired E n [] = []"
| "unexpired E n (b # bs) =
     (if expired_at E (now E n) b then unexpired E (Suc n) bs else b # unexpired E (Suc n) bs)"

lemma retain_unexpired_eq:
  "retain_unexpired E bs W = (unexpired E (tick W) bs, W\<lparr>tick := tick W + length bs\<rparr>)"
  by (induction bs arbitrary: W) (simp_all add: is_expired_eq tock_def)

lemma unexpired_subseq: "subseq (unexpired E n bs) bs"
  by (induction bs arbitrary: n) auto

lemma unexpired_keeps:
  assumes "b \<in> set bs" and "\<And>m. n \<le> m \<Longrightarrow> m < n + length bs \<Longrightarrow> \<not> expired_at E (now E m) b"
  shows "b \<in> set (unexpired E n bs)"
  using assms
proof (induction bs arbitrary: n)
  case Nil
  then show ?case by simp
next
  case (Cons a bs)
  show ?case
  proof (cases "b \<in> set bs")
    case True
    then have "b \<in> set (unexpired E (Suc n) bs)"
      by (rule Cons.IH) (simp add: Cons.prems(2))
    then show ?thesis by simp
  next
    case False
    then show ?thesis using Cons.prems(1) Cons.prems(2) [of n] by auto
  qed
qed

lemma unexpired_drops:
  assumes "\<And>m. n \<le> m \<Longrightarrow> m < n + length bs \<Longrightarrow> expired_at E (now E m) b"
  shows "b \<notin> set (unexpired E n bs)"
  using assms
proof (induction bs arbitrary: n)
  case Nil
  then show ?case by simp
next
  case (Cons a bs)
  have "b \<notin> set (unexpired E (Suc n) bs)"
    by (rule Cons.IH) (simp add: Cons.prems)
  then show ?case using Cons.prems [of n] by auto
qed

text \<open>The store as \<open>cleanup_expired_bundles\<close> leaves it in memory.\<close>

definition swept :: "'v env \<Rightarrow> store \<Rightarrow> store" where
  "swept E t = ((fst t)\<lparr>bundles := unexpired E (tick (snd t)) (bundles (fst t))\<rparr>,
     (snd t)\<lparr>tick := tick (snd t) + length (bundles (fst t))\<rparr>)"

lemma swept_step:
  shows "store_step t (swept E t)" and "store_view E (swept E t) = store_view E t"
    and "bundles (fst (swept E t)) = unexpired E (tick (snd t)) (bundles (fst t))"
proof -
  have l: "later (snd t) (snd (swept E t))" by (simp add: later_def swept_def)
  show "store_step t (swept E t)"
    using later_store_frame [OF l] by (simp add: store_step_def swept_def)
  show "store_view E (swept E t) = store_view E t"
    using later_disk_bundles [OF l] by (simp add: store_view_def swept_def)
qed (simp add: swept_def)

lemma cleanup_eq:
  "cleanup_expired_bundles E s =
     (let t = refresh_from_disk E s; kept = bundles (fst (swept E t))
      in if length kept < length (bundles (fst t))
         then do { (_, s) \<leftarrow> save_to_file E (swept E t); Some (length (bundles (fst t)) - length kept, s) }
         else Some (length (bundles (fst t)) - length kept, swept E t))"
  by (cases "refresh_from_disk E s")
    (simp add: cleanup_expired_bundles_def swept_def retain_unexpired_eq Let_def)

lemma unexpired_same: "\<not> length (unexpired E n bs) < length bs \<Longrightarrow> unexpired E n bs = bs"
  using list_emb_length [OF unexpired_subseq, of E n bs] subseq_same_length [OF unexpired_subseq, of E n bs]
  by linarith

lemma cleanup_cases:
  assumes "cleanup_expired_bundles E s = Some (n, s')"
  defines "t \<equiv> refresh_from_disk E s"
  obtains r where "save_to_file E (swept E t) = Some (r, s')"
      and "n = length (bundles (fst t)) - length (bundles (fst (swept E t)))"
  | "s' = swept E t" and "bundles (fst (swept E t)) = bundles (fst t)" and "n = 0"
proof (cases "length (bundles (fst (swept E t))) < length (bundles (fst t))")
  case True
  then show ?thesis using assms that(1) by (auto simp: cleanup_eq Let_def bind_eq_Some_conv)
next
  case False
  then have "bundles (fst (swept E t)) = bundles (fst t)"
    using unexpired_same by (simp add: swept_step(3))
  then show ?thesis using assms that(2) False by (simp add: cleanup_eq Let_def)
qed

lemma cleanup_step:
  assumes "serde_laws E" and "cleanup_expired_bundles E s = Some (n, s')"
  shows "store_step s s'" and "subseq (bundles (fst s')) (store_view E s)"
    and "subseq (store_view E s') (store_view E s)"
proof -
  define t where "t = refresh_from_disk E s"
  have t: "store_step s t" "store_view E t = store_view E s"
    "subseq (bundles (fst t)) (store_view E s)"
    unfolding t_def by (rule refresh_step)+
  have u: "store_step s (swept E t)" using t(1) swept_step(1) by (rule store_step_trans)
  have kept: "subseq (bundles (fst (swept E t))) (store_view E s)"
    unfolding swept_step(3) using unexpired_subseq t(3) by (rule subseq_order.order_trans)
  have "store_step s s' \<and> subseq (bundles (fst s')) (store_view E s) \<and>
      subseq (store_view E s') (store_view E s)"
    using assms(2)
  proof (cases rule: cleanup_cases)
    case (1 r)
    note sv = save_to_file_step [OF assms(1) 1(1) [folded t_def]]
    show ?thesis
      using store_step_trans [OF u sv(1)] sv(2,3) kept t(2) by (simp add: swept_step(2))
  next
    case 2
    then show ?thesis using u kept t(2) by (simp add: t_def [symmetric] swept_step(2))
  qed
  then show "store_step s s'" "subseq (bundles (fst s')) (store_view E s)"
    "subseq (store_view E s') (store_view E s)" by blast+
qed

lemma cleanup_exact:
  assumes "serde_laws E" and "io_ok E" and "cleanup_expired_bundles E s = Some (n, s')"
  defines "kept \<equiv> unexpired E (tick (snd (refresh_from_disk E s))) (store_view E s)"
  shows "bundles (fst s') = kept" and "store_view E s' = kept"
    and "n = length (store_view E s) - length kept"
proof -
  define t where "t = refresh_from_disk E s"
  have t: "bundles (fst t) = store_view E s" "store_view E t = store_view E s"
    unfolding t_def by (rule refresh_exact [OF assms(2)], rule refresh_step(2))
  have k: "bundles (fst (swept E t)) = kept"
    by (simp add: swept_step(3) kept_def t(1) t_def [symmetric])
  have "bundles (fst s') = kept \<and> store_view E s' = kept \<and>
      n = length (store_view E s) - length kept"
    using assms(3)
  proof (cases rule: cleanup_cases)
    case (1 q)
    note 1 = 1 [folded t_def]
    have "saved q" using save_to_file_ok [OF assms(2)] 1(1) by (metis prod.collapse)
    then show ?thesis using save_to_file_step [OF assms(1) 1(1)] 1(2) by (simp add: k t)
  next
    case 2
    note 2 = 2 [folded t_def]
    then show ?thesis using k t by (simp add: swept_step(2))
  qed
  then show "bundles (fst s') = kept" "store_view E s' = kept"
    "n = length (store_view E s) - length kept" by blast+
qed

lemma cleanup_total:
  assumes "serde_laws E"
  obtains n s' where "cleanup_expired_bundles E s = Some (n, s')"
proof -
  obtain r u where "save_to_file E (swept E (refresh_from_disk E s)) = Some (r, u)"
    using save_to_file_total [OF assms] .
  then have "cleanup_expired_bundles E s \<noteq> None" by (simp add: cleanup_eq Let_def)
  then show ?thesis using that by (cases "cleanup_expired_bundles E s") auto
qed

section \<open>Saving a new bundle\<close>

definition push :: "Bundle \<Rightarrow> store \<Rightarrow> store" where
  "push b s = ((fst s)\<lparr>bundles := bundles (fst s) @ [b]\<rparr>, snd s)"

lemma push_simps [simp]:
  "store_view E (push b s) = store_view E s" "bundles (fst (push b s)) = bundles (fst s) @ [b]"
  "snd (push b s) = snd s" "storage_dir (fst (push b s)) = storage_dir (fst s)"
  "capacity (fst (push b s)) = capacity (fst s)"
  by (simp_all add: push_def store_view_def)

lemma store_step_push [simp]: "store_step s (push b s)"
  by (simp add: store_step_def)

lemma save_bundle_eq:
  "save_bundle E b s =
     do {
       (_, s) \<leftarrow> cleanup_expired_bundles E (refresh_from_disk E s);
       if refuses (bundles (fst s)) (capacity (fst s)) b then Some (False, s)
       else do { (r, s) \<leftarrow> save_to_file E (push b s); Some (saved r, s) }
     }"
proof (cases "cleanup_expired_bundles E (refresh_from_disk E s)")
  case (Some p)
  obtain n L W where "p = (n, L, W)" by (cases p)
  then show ?thesis
    using Some by (auto simp: save_bundle_def refuses_def push_def has_ack_for_data_id_def)
qed (simp add: save_bundle_def)

lemma save_bundle_cases:
  assumes "save_bundle E b s = Some (r, s')"
  obtains n u where "cleanup_expired_bundles E (refresh_from_disk E s) = Some (n, u)"
      and "refuses (bundles (fst u)) (capacity (fst u)) b" and "r = False" and "s' = u"
  | n u q where "cleanup_expired_bundles E (refresh_from_disk E s) = Some (n, u)"
      and "\<not> refuses (bundles (fst u)) (capacity (fst u)) b"
      and "save_to_file E (push b u) = Some (q, s')" and "r = saved q"
proof -
  from assms obtain n u where c: "cleanup_expired_bundles E (refresh_from_disk E s) = Some (n, u)"
    by (cases "cleanup_expired_bundles E (refresh_from_disk E s)") (auto simp: save_bundle_eq)
  show ?thesis
  proof (cases "refuses (bundles (fst u)) (capacity (fst u)) b")
    case True
    then show ?thesis using assms c that(1) [OF c True] by (simp add: save_bundle_eq)
  next
    case False
    with assms c obtain q where "save_to_file E (push b u) = Some (q, s')" "r = saved q"
      by (auto simp: save_bundle_eq bind_eq_Some_conv)
    then show ?thesis by (rule that(2) [OF c False])
  qed
qed

text \<open>
  In any environment: the file keeps some of its bundles, in order, and on success the new
  one is admissible and is the last.
\<close>

lemma save_bundle_step:
  assumes "serde_laws E" and "save_bundle E b s = Some (r, s')"
  obtains base where "store_step s s'" and "subseq base (store_view E s)"
    and "store_view E s' = (if r then base @ [b] else base)"
    and "r \<longrightarrow> \<not> refuses base (capacity (fst s)) b"
  using assms(2)
proof (cases rule: save_bundle_cases)
  case (1 n u)
  note c = cleanup_step [OF assms(1) 1(1)]
  have "store_step s u" using refresh_step(1) c(1) by (rule store_step_trans)
  moreover have "subseq (store_view E u) (store_view E s)" using c(3) by (simp add: refresh_step(2))
  ultimately show ?thesis using 1 by (intro that [of "store_view E u"]) auto
next
  case (2 n u q)
  note c = cleanup_step [OF assms(1) 2(1)]
  note sv = save_to_file_step [OF assms(1) 2(3)]
  have u: "store_step s u" using refresh_step(1) c(1) by (rule store_step_trans)
  have s': "store_step s s'" using store_step_trans [OF store_step_trans [OF u store_step_push] sv(1)] .
  have cap: "capacity (fst u) = capacity (fst s)" using u by (simp add: store_step_def)
  show ?thesis
  proof (cases r)
    case True
    then show ?thesis using s' c(2) sv(3) 2(2,4) cap
      by (intro that [of "bundles (fst u)"]) (auto simp: refresh_step(2))
  next
    case False
    then show ?thesis using s' c(3) sv(3) 2(4)
      by (intro that [of "store_view E u"]) (auto simp: refresh_step(2))
  qed
qed

text \<open>With a working disk the result is exact.\<close>

definition clock_after_refresh :: "'v env \<Rightarrow> store \<Rightarrow> nat" where
  "clock_after_refresh E s = tick (snd (refresh_from_disk E s))"

lemma save_bundle_exact:
  assumes "serde_laws E" and "io_ok E" and "save_bundle E b s = Some (r, s')"
  defines "kept \<equiv> unexpired E (clock_after_refresh E (refresh_from_disk E s)) (store_view E s)"
  shows "r \<longleftrightarrow> \<not> refuses kept (capacity (fst s)) b"
    and "store_view E s' = (if r then kept @ [b] else kept)"
proof -
  have "(r \<longleftrightarrow> \<not> refuses kept (capacity (fst s)) b) \<and>
      store_view E s' = (if r then kept @ [b] else kept)"
    using assms(3)
  proof (cases rule: save_bundle_cases)
    case (1 n u)
    note c = cleanup_exact [OF assms(1,2) 1(1)]
    have cap: "capacity (fst u) = capacity (fst s)"
      using cleanup_step(1) [OF assms(1) 1(1)] refresh_step(1) [of s E] by (simp add: store_step_def)
    show ?thesis using 1 c cap by (simp add: kept_def clock_after_refresh_def refresh_step(2))
  next
    case (2 n u q)
    note c = cleanup_exact [OF assms(1,2) 2(1)]
    have cap: "capacity (fst u) = capacity (fst s)"
      using cleanup_step(1) [OF assms(1) 2(1)] refresh_step(1) [of s E] by (simp add: store_step_def)
    have "saved q" using save_to_file_ok [OF assms(2)] 2(3) by (metis prod.collapse)
    then show ?thesis using 2 c cap save_to_file_step(3) [OF assms(1) 2(3)]
      by (simp add: kept_def clock_after_refresh_def refresh_step(2))
  qed
  then show "r \<longleftrightarrow> \<not> refuses kept (capacity (fst s)) b"
    and "store_view E s' = (if r then kept @ [b] else kept)" by blast+
qed

lemma save_bundle_total:
  assumes "serde_laws E"
  obtains r s' where "save_bundle E b s = Some (r, s')"
proof -
  obtain n u where c: "cleanup_expired_bundles E (refresh_from_disk E s) = Some (n, u)"
    using cleanup_total [OF assms] .
  obtain q v where "save_to_file E (push b u) = Some (q, v)"
    using save_to_file_total [OF assms] .
  with c have "save_bundle E b s \<noteq> None" by (auto simp: save_bundle_eq)
  then show ?thesis using that by (cases "save_bundle E b s") auto
qed

section \<open>Replacing, deleting and reading\<close>

definition set_bundles :: "Bundle list \<Rightarrow> store \<Rightarrow> store" where
  "set_bundles bs s = ((fst s)\<lparr>bundles := bs\<rparr>, snd s)"

lemma set_bundles_simps [simp]:
  "store_view E (set_bundles bs s) = store_view E s" "bundles (fst (set_bundles bs s)) = bs"
  "snd (set_bundles bs s) = snd s" "store_step s (set_bundles bs s)"
  by (simp_all add: set_bundles_def store_view_def store_step_def)

lemma update_bundle_eq:
  "update_bundle E b s =
     (let t = refresh_from_disk E s
      in if rejects (bundles (fst t)) b then Some (False, t)
         else do { (r, u) \<leftarrow> save_to_file E (set_bundles (replace_bundle b (bundles (fst t))) t);
                   Some (saved r, u) })"
  by (cases "refresh_from_disk E s")
    (simp add: update_bundle_def rejects_def replace_bundle_def set_bundles_def
      has_ack_for_data_id_def find_id_None Let_def)

lemma delete_bundle_eq:
  "delete_bundle E i s =
     (let t = refresh_from_disk E s; u = set_bundles (remove_id i (bundles (fst t))) t
      in if has_id (bundles (fst t)) i
         then do { (r, u) \<leftarrow> save_to_file E u; Some (saved r, u) }
         else Some (False, u))"
  by (cases "refresh_from_disk E s")
    (auto simp: delete_bundle_def remove_id_def set_bundles_def Let_def length_filter_less_iff has_id_iff)

lemma update_bundle_step:
  assumes "serde_laws E" and "update_bundle E b s = Some (r, s')"
  obtains base where "store_step s s'" and "base = store_view E s \<or> base = []"
    and "store_view E s' = (if r then replace_bundle b base else store_view E s)"
    and "r \<longrightarrow> \<not> rejects base b"
proof -
  define t where "t = refresh_from_disk E s"
  have t: "store_step s t" "store_view E t = store_view E s"
    "bundles (fst t) = store_view E s \<or> bundles (fst t) = []"
    unfolding t_def by (rule refresh_step)+
  show ?thesis
  proof (cases "rejects (bundles (fst t)) b")
    case True
    then have "r = False" "s' = t"
      using assms(2) by (simp_all add: update_bundle_eq t_def [symmetric] Let_def)
    then show ?thesis using t by (intro that [of "bundles (fst t)"]) simp_all
  next
    case False
    then obtain q where q: "save_to_file E (set_bundles (replace_bundle b (bundles (fst t))) t) = Some (q, s')"
      and r: "r = saved q"
      using assms(2) by (auto simp: update_bundle_eq t_def [symmetric] Let_def bind_eq_Some_conv)
    note sv = save_to_file_step [OF assms(1) q]
    have "store_step s s'"
      using t(1) sv(1) by (meson set_bundles_simps(4) store_step_trans)
    then show ?thesis using t sv(3) r False by (intro that [of "bundles (fst t)"]) simp_all
  qed
qed

lemma update_bundle_exact:
  assumes "serde_laws E" and "io_ok E" and "update_bundle E b s = Some (r, s')"
  shows "r \<longleftrightarrow> \<not> rejects (store_view E s) b"
    and "store_view E s' = (if r then replace_bundle b (store_view E s) else store_view E s)"
proof -
  define t where "t = refresh_from_disk E s"
  have t: "bundles (fst t) = store_view E s" "store_view E t = store_view E s"
    unfolding t_def by (rule refresh_exact [OF assms(2)], rule refresh_step(2))
  have "(r \<longleftrightarrow> \<not> rejects (store_view E s) b) \<and>
      store_view E s' = (if r then replace_bundle b (store_view E s) else store_view E s)"
  proof (cases "rejects (store_view E s) b")
    case True
    then show ?thesis using assms(3) t by (auto simp: update_bundle_eq t_def [symmetric] Let_def)
  next
    case False
    then obtain q where q: "save_to_file E (set_bundles (replace_bundle b (store_view E s)) t) = Some (q, s')"
      and r: "r = saved q"
      using assms(3) t by (auto simp: update_bundle_eq t_def [symmetric] Let_def bind_eq_Some_conv)
    have "saved q" using save_to_file_ok [OF assms(2)] q by (metis prod.collapse)
    then show ?thesis using save_to_file_step(3) [OF assms(1) q] r False by simp
  qed
  then show "r \<longleftrightarrow> \<not> rejects (store_view E s) b"
    and "store_view E s' = (if r then replace_bundle b (store_view E s) else store_view E s)"
    by blast+
qed

lemma delete_bundle_step:
  assumes "serde_laws E" and "delete_bundle E i s = Some (r, s')"
  obtains base where "store_step s s'" and "base = store_view E s \<or> base = []"
    and "store_view E s' = (if r then remove_id i base else store_view E s)"
    and "r \<longrightarrow> has_id base i"
proof -
  define t where "t = refresh_from_disk E s"
  have t: "store_step s t" "store_view E t = store_view E s"
    "bundles (fst t) = store_view E s \<or> bundles (fst t) = []"
    unfolding t_def by (rule refresh_step)+
  let ?u = "set_bundles (remove_id i (bundles (fst t))) t"
  have u: "store_step s ?u" using t(1) by (rule store_step_trans) simp
  show ?thesis
  proof (cases "has_id (bundles (fst t)) i")
    case False
    then have "r = False" "s' = ?u"
      using assms(2) by (simp_all add: delete_bundle_eq t_def [symmetric] Let_def)
    then show ?thesis using t u by (intro that [of "bundles (fst t)"]) simp_all
  next
    case True
    then obtain q where q: "save_to_file E ?u = Some (q, s')" and r: "r = saved q"
      using assms(2) by (auto simp: delete_bundle_eq t_def [symmetric] Let_def bind_eq_Some_conv)
    note sv = save_to_file_step [OF assms(1) q]
    have "store_step s s'" using u sv(1) by (rule store_step_trans)
    then show ?thesis using t sv(3) r True by (intro that [of "bundles (fst t)"]) simp_all
  qed
qed

lemma delete_bundle_exact:
  assumes "serde_laws E" and "io_ok E" and "delete_bundle E i s = Some (r, s')"
  shows "r \<longleftrightarrow> has_id (store_view E s) i" and "store_view E s' = remove_id i (store_view E s)"
proof -
  define t where "t = refresh_from_disk E s"
  have t: "bundles (fst t) = store_view E s" "store_view E t = store_view E s"
    unfolding t_def by (rule refresh_exact [OF assms(2)], rule refresh_step(2))
  have "(r \<longleftrightarrow> has_id (store_view E s) i) \<and> store_view E s' = remove_id i (store_view E s)"
  proof (cases "has_id (store_view E s) i")
    case False
    then have "remove_id i (store_view E s) = store_view E s"
      by (auto simp: remove_id_def has_id_iff intro!: filter_True)
    then show ?thesis
      using False assms(3) t by (auto simp: delete_bundle_eq t_def [symmetric] Let_def)
  next
    case True
    then obtain q where q: "save_to_file E (set_bundles (remove_id i (store_view E s)) t) = Some (q, s')"
      and r: "r = saved q"
      using assms(3) t by (auto simp: delete_bundle_eq t_def [symmetric] Let_def bind_eq_Some_conv)
    have "saved q" using save_to_file_ok [OF assms(2)] q by (metis prod.collapse)
    then show ?thesis using save_to_file_step(3) [OF assms(1) q] r True by simp
  qed
  then show "r \<longleftrightarrow> has_id (store_view E s) i"
    and "store_view E s' = remove_id i (store_view E s)" by blast+
qed

lemma update_bundle_total: "serde_laws E \<Longrightarrow> update_bundle E b s \<noteq> None"
  by (rule save_to_file_total [of E "set_bundles (replace_bundle b (bundles (fst (refresh_from_disk E s))))
    (refresh_from_disk E s)"]) (auto simp: update_bundle_eq Let_def)

lemma delete_bundle_total: "serde_laws E \<Longrightarrow> delete_bundle E i s \<noteq> None"
  by (rule save_to_file_total [of E "set_bundles (remove_id i (bundles (fst (refresh_from_disk E s))))
    (refresh_from_disk E s)"]) (auto simp: delete_bundle_eq Let_def)

lemma get_bundle_step:
  assumes "get_bundle E i s = (r, s')"
  shows "store_step s s'" and "store_view E s' = store_view E s" and "later (snd s) (snd s')"
    and "r = find_id i (store_view E s) \<or> r = None"
proof -
  have s': "s' = refresh_from_disk E s" and r: "r = find_id i (bundles (fst s'))"
    using assms by (auto simp: get_bundle_def Let_def)
  show "store_step s s'" "store_view E s' = store_view E s" "later (snd s) (snd s')"
    unfolding s' by (rule refresh_step)+
  show "r = find_id i (store_view E s) \<or> r = None"
    using refresh_step(3) [of E s] by (auto simp: r s' find_id_def)
qed

lemma get_bundle_exact:
  "io_ok E \<Longrightarrow> get_bundle E i s = (find_id i (store_view E s), refresh_from_disk E s)"
  by (simp add: get_bundle_def refresh_exact Let_def)

lemma get_all_bundles_step:
  assumes "get_all_bundles E s = (bs, s')"
  shows "store_step s s'" and "store_view E s' = store_view E s" and "later (snd s) (snd s')"
    and "bs = store_view E s \<or> bs = []"
proof -
  have s': "s' = refresh_from_disk E s" and bs: "bs = bundles (fst s')"
    using assms by (auto simp: get_all_bundles_def Let_def)
  show "store_step s s'" "store_view E s' = store_view E s" "later (snd s) (snd s')"
    "bs = store_view E s \<or> bs = []"
    unfolding bs unfolding s' by (rule refresh_step)+
qed

lemma get_all_bundles_exact:
  "io_ok E \<Longrightarrow> get_all_bundles E s = (store_view E s, refresh_from_disk E s)"
  by (simp add: get_all_bundles_def refresh_exact Let_def)

section \<open>Opening a store\<close>

lemma storage_new_result:
  assumes "storage_new E directory c W = Some (L, W')"
  defines "dir \<equiv> if is_relative directory then path_join (manifest_dir E) directory else directory"
  shows "storage_dir L = dir" and "capacity L = c" and "disk W' = disk W" and "frames W' = frames W"
    and "bundles L = disk_bundles E dir W \<or> bundles L = []"
    and "io_ok E \<Longrightarrow> bundles L = disk_bundles E dir W"
proof -
  obtain made W1 where m: "(if dirs W dir then (True, W) else fs_create_dir_all E dir W) = (made, W1)"
    by (metis surj_pair)
  have d1: "disk W1 = disk W" "frames W1 = frames W"
    using m by (auto simp: fs_create_dir_all_def split: if_splits)
  then have v1: "disk_bundles E dir W1 = disk_bundles E dir W" by (simp add: disk_bundles_def)
  obtain bs W2 where l: "load_bundles_from_file E dir W1 = (bs, W2)" by fastforce
  have made: "made" and L: "L = \<lparr>storage_dir = dir, bundles = bs, capacity = c\<rparr>" and W': "W' = W2"
    using assms(1) m l unfolding storage_new_def dir_def [symmetric] by (auto simp: Let_def split: if_splits)
  show "storage_dir L = dir" "capacity L = c" by (simp_all add: L)
  obtain lt: "later W1 W2" and bs: "bs = disk_bundles E dir W1 \<or> bs = []" by (rule load_cases [OF l])
  show "disk W' = disk W" "frames W' = frames W" "bundles L = disk_bundles E dir W \<or> bundles L = []"
    using d1 v1 L W' bs later_fields(1,5) [OF lt] by simp_all
  show "io_ok E \<Longrightarrow> bundles L = disk_bundles E dir W" using load_ok [of E dir W1] l v1 L by simp
qed

section \<open>A read that fails\<close>

text \<open>
  A file that cannot be read is taken for an empty one, and the next save replaces it: the
  bundles it held are gone.
\<close>

lemma refresh_unreadable:
  "\<not> io_read E (tick W) \<Longrightarrow> refresh_from_disk E (L, W) =
     (L\<lparr>bundles := []\<rparr>, if disk W (bundles_file (storage_dir L)) = None then W else tock W)"
  by (auto simp: refresh_from_disk_def load_bundles_from_file_def fs_defs)

lemma read_error_loses_bundles:
  assumes "serde_laws E" and "\<not> io_read E (tick W)" and "\<not> io_read E (Suc (tick W))"
    and "\<And>n. io_create E n \<and> io_write E n = None \<and> io_sync E n \<and> io_rename E n" and "0 < capacity L"
  shows "\<exists>s'. save_bundle E b (L, W) = Some (True, s') \<and> store_view E s' = [b]"
proof -
  let ?c = "\<lambda>V. if disk V (bundles_file (storage_dir L)) = None then V else tock V"
  have "\<not> io_read E (tick (?c W))" using assms(2,3) by simp
  then have c: "cleanup_expired_bundles E (refresh_from_disk E (L, W)) = Some (0, (L\<lparr>bundles := []\<rparr>, ?c (?c W)))"
    using assms(2) by (simp add: cleanup_expired_bundles_def refresh_unreadable)
  obtain r s' where s: "save_to_file E (L\<lparr>bundles := [b]\<rparr>, ?c (?c W)) = Some (r, s')"
    using save_to_file_total [OF assms(1)] .
  have "fst (run_io (write_steps E dir payload) V)" for dir payload V
    using assms(4) by (simp add: write_steps_def fs_defs)
  then have "saved r" using s by (metis fst_conv save_to_file_cases)
  moreover from this have "store_view E s' = [b]" using save_to_file_step(3) [OF assms(1) s] by simp
  moreover have "save_bundle E b (L, W) = Some (saved r, s')"
    using assms(5) by (simp add: save_bundle_def c s has_ack_for_data_id_def has_ack_def has_id_def)
  ultimately show ?thesis by simp
qed

section \<open>\<open>save_ack_if_new_for_data\<close>\<close>

text \<open>
  One acknowledgement per data bundle, within the capacity. The identifier of the
  acknowledgement is not compared with those stored, so unlike \<open>save_bundle\<close> this operation,
  which nothing calls, may store an identifier twice.
\<close>

lemma save_ack_exact:
  assumes "serde_laws E" and "io_ok E" and "b_kind ack = Ack d"
    and "save_ack_if_new_for_data E ack s = (r, s')"
  defines "v \<equiv> store_view E s"
  shows "r \<longleftrightarrow> \<not> has_ack v d \<and> length v < capacity (fst s)" and "store_view E s' = (if r then v @ [ack] else v)"
proof -
  obtain L W where s: "s = (L, W)" by (cases s)
  let ?L = "L\<lparr>bundles := v\<rparr>"
  obtain W0 where ref: "refresh_from_disk E s = (?L, W0)" by (simp add: s refresh_ok [OF assms(2)] v_def store_view_def)
  have same: "store_view E (?L, W0) = v" using refresh_step(2) [of E s] by (simp add: ref v_def)
  have "(r \<longleftrightarrow> \<not> has_ack v d \<and> length v < capacity (fst s)) \<and> store_view E s' = (if r then v @ [ack] else v)"
  proof (cases "has_ack v d \<or> capacity L \<le> length v")
    case True
    with assms(3,4) ref have "\<not> r" "s' = (?L, W0)"
      by (auto simp: save_ack_if_new_for_data_def Let_def split: if_splits option.splits prod.splits)
    then show ?thesis using True same by (auto simp: s)
  next
    case False
    obtain c where c: "payload_of E (v @ [ack]) = Some c" using payload_total [OF assms(1)] .
    obtain ok V where w: "run_io (write_steps E (storage_dir L) c) W0 = (ok, V)" by fastforce
    have ok: ok using write_steps_ok [OF assms(2), of "storage_dir L" c W0] by (simp add: w)
    from False assms(3,4) ref c w have "r = ok" "s' = (?L\<lparr>bundles := v @ [ack]\<rparr>, V)"
      by (simp_all add: save_ack_if_new_for_data_def)
    then show ?thesis using False ok write_steps_result(2) [OF w] payload_parse [OF assms(1) c]
      by (simp add: s store_view_def disk_bundles_def)
  qed
  then show "r \<longleftrightarrow> \<not> has_ack v d \<and> length v < capacity (fst s)" "store_view E s' = (if r then v @ [ack] else v)"
    by blast+
qed

section \<open>The storage layer provides the interface\<close>

text \<open>What survives the cleanup at the start of \<open>save_bundle\<close>.\<close>

definition store_sweep :: "'v env \<Rightarrow> store \<Rightarrow> Bundle list" where
  "store_sweep E s =
     unexpired E (clock_after_refresh E (refresh_from_disk E s)) (store_view E s)"

interpretation layer: bundle_store "store_view E" store_step "\<lambda>s. capacity (fst s)" "\<lambda>_. serde_laws E"
    "get_bundle E" "get_all_bundles E" "save_bundle E" "update_bundle E" "delete_bundle E"
  for E :: "'v env"
proof unfold_locales
  fix s :: store and i x s'
  assume "serde_laws E" and g: "get_bundle E i s = (x, s')"
  then show "serde_laws E \<and> store_step s s' \<and> store_view E s' = store_view E s \<and>
      (x = find_id i (store_view E s) \<or> x = None)"
    using get_bundle_step [OF g] by simp
next
  fix s :: store and bs s'
  assume "serde_laws E" and g: "get_all_bundles E s = (bs, s')"
  then show "serde_laws E \<and> store_step s s' \<and> store_view E s' = store_view E s \<and>
      (bs = store_view E s \<or> bs = [])"
    using get_all_bundles_step [OF g] by simp
next
  fix s :: store and b r s'
  assume E: "serde_laws E" and "save_bundle E b s = Some (r, s')"
  then obtain base where "store_step s s'" "subseq base (store_view E s)"
    "store_view E s' = (if r then base @ [b] else base)"
    "r \<longrightarrow> \<not> refuses base (capacity (fst s)) b" by (rule save_bundle_step)
  then show "serde_laws E \<and> store_step s s' \<and>
      (\<exists>base. subseq base (store_view E s) \<and> store_view E s' = (if r then base @ [b] else base) \<and>
        (r \<longrightarrow> \<not> refuses base (capacity (fst s)) b))"
    using E by blast
next
  fix s :: store and b r s'
  assume E: "serde_laws E" and "update_bundle E b s = Some (r, s')"
  then obtain base where "store_step s s'" "base = store_view E s \<or> base = []"
    "store_view E s' = (if r then replace_bundle b base else store_view E s)"
    "r \<longrightarrow> \<not> rejects base b" by (rule update_bundle_step)
  then show "serde_laws E \<and> store_step s s' \<and>
      (\<exists>base. (base = store_view E s \<or> base = []) \<and>
        store_view E s' = (if r then replace_bundle b base else store_view E s) \<and>
        (r \<longrightarrow> \<not> rejects base b))"
    using E by blast
next
  fix s :: store and i r s'
  assume E: "serde_laws E" and "delete_bundle E i s = Some (r, s')"
  then obtain base where "store_step s s'" "base = store_view E s \<or> base = []"
    "store_view E s' = (if r then remove_id i base else store_view E s)"
    "r \<longrightarrow> has_id base i" by (rule delete_bundle_step)
  then show "serde_laws E \<and> store_step s s' \<and>
      (\<exists>base. (base = store_view E s \<or> base = []) \<and>
        store_view E s' = (if r then remove_id i base else store_view E s) \<and>
        (r \<longrightarrow> has_id base i))"
    using E by blast
next
  fix s :: store and b
  assume E: "serde_laws E"
  show "save_bundle E b s \<noteq> None" by (rule save_bundle_total [OF E, of b s]) simp
next
  fix s s' s'' :: store
  show "store_step s s' \<Longrightarrow> store_step s' s'' \<Longrightarrow> store_step s s''" by (rule store_step_trans)
qed (simp_all add: update_bundle_total delete_bundle_total store_step_def)

interpretation layer: reliable_store "store_view E" store_step "\<lambda>s. capacity (fst s)" "\<lambda>_. serde_laws E"
    "get_bundle E" "get_all_bundles E" "save_bundle E" "update_bundle E" "delete_bundle E"
    "\<lambda>_. serde_laws E \<and> io_ok E" "store_sweep E"
  for E :: "'v env"
proof unfold_locales
  fix s :: store and b r s'
  assume E: "serde_laws E \<and> io_ok E" and "save_bundle E b s = Some (r, s')"
  then show "(serde_laws E \<and> io_ok E) \<and>
      r = (\<not> refuses (store_sweep E s) (capacity (fst s)) b) \<and>
      store_view E s' = (if r then store_sweep E s @ [b] else store_sweep E s)"
    using save_bundle_exact [of E b s r s'] unfolding store_sweep_def by blast
next
  fix s :: store and b r s'
  assume "serde_laws E \<and> io_ok E" and "update_bundle E b s = Some (r, s')"
  then show "(serde_laws E \<and> io_ok E) \<and> r = (\<not> rejects (store_view E s) b) \<and>
      store_view E s' = (if r then replace_bundle b (store_view E s) else store_view E s)"
    using update_bundle_exact by blast
next
  fix s :: store and i r s'
  assume "serde_laws E \<and> io_ok E" and "delete_bundle E i s = Some (r, s')"
  then show "(serde_laws E \<and> io_ok E) \<and> r = has_id (store_view E s) i \<and>
      store_view E s' = remove_id i (store_view E s)"
    using delete_bundle_exact by blast
qed (auto simp: get_bundle_exact get_all_bundles_exact store_sweep_def unexpired_subseq)

section \<open>Properties\<close>

text \<open>
  C1. On a working disk \<open>save_bundle\<close> returns and never panics. It first drops the
  expired bundles. It then stores the bundle, as the last one, exactly if the store holds no
  acknowledgement of it (for a data bundle), has room, and holds no bundle with its
  identifier; otherwise it returns false and stores nothing.
\<close>

theorem save_bundle_correct:
  assumes "serde_laws E" and "io_ok E"
  shows "\<exists>r s'. save_bundle E b s = Some (r, s') \<and>
    (let kept = store_sweep E s
     in r = (\<not> (is_Data (b_kind b) \<and> has_ack kept (b_id b)) \<and> length kept < capacity (fst s) \<and>
          \<not> has_id kept (b_id b)) \<and>
        store_view E s' = (if r then kept @ [b] else kept))"
proof -
  obtain r s' where sv: "save_bundle E b s = Some (r, s')" using save_bundle_total [OF assms(1)] .
  from layer.save_exact [OF conjI [OF assms] sv] show ?thesis
    using sv by (auto simp: refuses_def Let_def)
qed

definition sample_store :: store where
  "sample_store = (\<lparr>storage_dir = ''/n'', bundles = [], capacity = 1\<rparr>, sample_world)"

lemma sample_store_view: "store_view E sample_store = []"
  by (simp add: store_view_def sample_store_def disk_bundles_def sample_world_def)

lemma store_sweep_Nil: "store_view E s = [] \<Longrightarrow> store_sweep E s = []"
  by (simp add: store_sweep_def)

theorem save_bundle_correct_witness:
  "\<exists>s'. save_bundle sample_env sample_bundle sample_store = Some (True, s') \<and>
     store_view sample_env s' = [sample_bundle]"
  using save_bundle_correct [OF sample_serde_laws sample_io_ok, of sample_bundle sample_store]
    store_sweep_Nil [OF sample_store_view, of sample_env]
  by (auto simp: has_ack_def has_id_def sample_store_def)

end
