(* ===== verification/Storage_Race.thy ===== *)
theory Storage_Race
  imports Storage_Facts
begin

text \<open>
  Two threads on one store. \<open>STORAGE_IO_LOCK\<close> is held for each reading and for each
  writing of the file, not from the reading an operation decides on to the writing of the
  result. \<open>save_bundle\<close> and \<open>update_bundle\<close> are split at that point:
  \<open>save_prepare\<close> and \<open>update_prepare\<close> run up to the call of
  \<open>save_to_file\<close> and give either the result or the store to be written. A thread owns
  its \<open>StorageLayer\<close>; the world is shared.
\<close>

definition save_prepare :: "'v env \<Rightarrow> Bundle \<Rightarrow> store \<Rightarrow> (store + store) option" where
  "save_prepare E b s =
     do {
       (_, s) \<leftarrow> cleanup_expired_bundles E (refresh_from_disk E s);
       let (L, W) = s;
       if is_Data (b_kind b) \<and> has_ack_for_data_id L (b_id b) then Some (Inl (L, W))
       else if length (bundles L) \<ge> capacity L then Some (Inl (L, W))
       else if has_id (bundles L) (b_id b) then Some (Inl (L, W))
       else Some (Inr (L\<lparr>bundles := bundles L @ [b]\<rparr>, W))
     }"

definition update_prepare :: "'v env \<Rightarrow> Bundle \<Rightarrow> store \<Rightarrow> store + store" where
  "update_prepare E b s =
     (let (L, W) = refresh_from_disk E s
      in if is_Data (b_kind b) \<and> has_ack_for_data_id L (b_id b) then Inl (L, W)
         else if find_id (b_id b) (bundles L) = None then Inl (L, W)
         else Inr (L\<lparr>bundles := update_first (\<lambda>x. b_id x = b_id b) (\<lambda>_. b) (bundles L)\<rparr>, W))"

text \<open>The second half, on the world as it is by then.\<close>

definition commit :: "'v env \<Rightarrow> StorageLayer \<Rightarrow> world \<Rightarrow> (bool \<times> store) option" where
  "commit E L W = do { (r, s) \<leftarrow> save_to_file E (L, W); Some (saved r, s) }"

text \<open>Run in one go, the halves are the operation.\<close>

lemma save_in_halves:
  "save_bundle E b s =
     (case save_prepare E b s of
        None \<Rightarrow> None
      | Some (Inl s) \<Rightarrow> Some (False, s)
      | Some (Inr (L, W)) \<Rightarrow> commit E L W)"
proof (cases "cleanup_expired_bundles E (refresh_from_disk E s)")
  case (Some p)
  obtain n L W where "p = (n, L, W)" by (cases p)
  then show ?thesis using Some by (simp add: save_bundle_def save_prepare_def commit_def)
qed (simp add: save_bundle_def save_prepare_def)

lemma update_in_halves:
  "update_bundle E b s =
     (case update_prepare E b s of Inl s \<Rightarrow> Some (False, s) | Inr (L, W) \<Rightarrow> commit E L W)"
  by (cases "refresh_from_disk E s") (simp add: update_bundle_def update_prepare_def commit_def)

section \<open>What a half does on a working disk\<close>

lemma save_prepare_exact:
  assumes "serde_laws E" and "io_ok E" and "save_prepare E b s = Some (Inr (L, W))"
  shows "bundles L = store_view E (L, W) @ [b]" and "subseq (store_view E (L, W)) (store_view E s)"
    and "\<not> has_id (store_view E (L, W)) (b_id b)" and "storage_dir L = storage_dir (fst s)"
proof -
  from assms(3) obtain n u where c: "cleanup_expired_bundles E (refresh_from_disk E s) = Some (n, u)"
    and L: "L = (fst u)\<lparr>bundles := bundles (fst u) @ [b]\<rparr>" and W: "W = snd u"
    and nid: "\<not> has_id (bundles (fst u)) (b_id b)"
    by (cases "cleanup_expired_bundles E (refresh_from_disk E s)")
      (auto simp: save_prepare_def split: if_splits)
  note x = cleanup_exact [OF assms(1,2) c] and y = cleanup_step [OF assms(1) c]
  have v: "store_view E (L, W) = bundles (fst u)" using x by (simp add: L W store_view_def)
  show "bundles L = store_view E (L, W) @ [b]" using v by (simp add: L)
  show "\<not> has_id (store_view E (L, W)) (b_id b)" using nid v by simp
  show "subseq (store_view E (L, W)) (store_view E s)" using y(2) v by (simp add: refresh_step(2))
  show "storage_dir L = storage_dir (fst s)"
    using y(1) refresh_step(1) [of s E] by (simp add: L store_step_def)
qed

lemma commit_exact:
  assumes "serde_laws E" and "io_ok E"
  shows "\<exists>W'. commit E L W = Some (True, (L, W')) \<and> disk_bundles E (storage_dir L) W' = bundles L"
proof -
  obtain r s' where s: "save_to_file E (L, W) = Some (r, s')" using save_to_file_total [OF assms(1)] .
  note x = save_to_file_result [OF assms(1) s] and y = save_to_file_ok [OF assms(2) s]
  have "commit E L W = Some (True, (L, snd s'))" using y x(1) by (cases s') (auto simp: commit_def s)
  then show ?thesis using x(3) y by auto
qed

text \<open>
  The lost save: both threads prepare before either writes. Both saves succeed, and the
  bundle of the first is gone.
\<close>

lemma interleaved_saves:
  assumes "serde_laws E" and "io_ok E" and "storage_dir L1 = storage_dir L2" and "b_id b1 \<noteq> b_id b2"
    and "save_prepare E b1 (L1, W) = Some (Inr (M1, W1))"
    and "save_prepare E b2 (L2, W1) = Some (Inr (M2, W2))"
  shows "\<exists>W3 W4. commit E M1 W2 = Some (True, (M1, W3)) \<and> commit E M2 W3 = Some (True, (M2, W4)) \<and>
    has_id (disk_bundles E (storage_dir L1) W3) (b_id b1) \<and>
    \<not> has_id (disk_bundles E (storage_dir L1) W4) (b_id b1)"
proof -
  note p1 = save_prepare_exact [OF assms(1,2,5)] and p2 = save_prepare_exact [OF assms(1,2,6)]
  obtain W3 where c1: "commit E M1 W2 = Some (True, (M1, W3))"
    and v3: "disk_bundles E (storage_dir M1) W3 = bundles M1" using commit_exact [OF assms(1,2)] by blast
  obtain W4 where c2: "commit E M2 W3 = Some (True, (M2, W4))"
    and v4: "disk_bundles E (storage_dir M2) W4 = bundles M2" using commit_exact [OF assms(1,2)] by blast
  have dirs: "storage_dir M1 = storage_dir L1" "storage_dir M2 = storage_dir L1"
    using p1(4) p2(4) assms(3) by simp_all
  have "store_view E (L2, W1) = store_view E (M1, W1)" using dirs assms(3) by (simp add: store_view_def)
  then have "\<not> has_id (store_view E (L2, W1)) (b_id b1)" using p1(3) by simp
  then have "\<not> has_id (store_view E (M2, W2)) (b_id b1)"
    using subseq_set [OF p2(2)] by (auto simp: has_id_iff)
  then have "\<not> has_id (bundles M2) (b_id b1)" using assms(4) unfolding p2(1) by (auto simp: has_id_iff)
  moreover have "has_id (bundles M1) (b_id b1)" unfolding p1(1) by (simp add: has_id_iff)
  ultimately show ?thesis using c1 c2 v3 v4 dirs by auto
qed

end
