(* ===== verification/Storage_Props.thy ===== *)
theory Storage_Props
  imports Storage_Race
begin

text \<open>
  The properties of the storage layer beyond \<open>save_bundle\<close>: the invariant over any
  sequence of operations, what the other operations do, crashes and losses of power, restarts
  as a refinement of operations on a plain list, and two threads on one store.
\<close>

section \<open>Sequences of operations\<close>

datatype store_op =
    OpSave Bundle
  | OpUpdate Bundle
  | OpDelete uuid
  | OpGet uuid
  | OpAll
  | OpCleanup

definition run_op :: "'v env \<Rightarrow> store_op \<Rightarrow> store \<Rightarrow> store option" where
  "run_op E oper s =
     (case oper of
        OpSave b \<Rightarrow> map_option snd (save_bundle E b s)
      | OpUpdate b \<Rightarrow> map_option snd (update_bundle E b s)
      | OpDelete i \<Rightarrow> map_option snd (delete_bundle E i s)
      | OpGet i \<Rightarrow> Some (snd (get_bundle E i s))
      | OpAll \<Rightarrow> Some (snd (get_all_bundles E s))
      | OpCleanup \<Rightarrow> map_option snd (cleanup_expired_bundles E s))"

fun run_ops :: "'v env \<Rightarrow> store_op list \<Rightarrow> store \<Rightarrow> store option" where
  "run_ops E [] s = Some s"
| "run_ops E (oper # ops) s = do { s \<leftarrow> run_op E oper s; run_ops E ops s }"

definition layer_ok :: "'v env \<Rightarrow> store \<Rightarrow> bool" where
  "layer_ok E s \<longleftrightarrow> serde_laws E \<and> well_formed (store_view E s) (capacity (fst s))"

lemma layer_ok_eq:
  "bundle_store.ok (store_view E) (\<lambda>s. capacity (fst s)) (\<lambda>_. serde_laws E) s = layer_ok E s"
  by (simp add: layer.ok_def layer_ok_def)

lemmas layer_basic_ok = layer.get_ok layer.all_ok layer.save_ok layer.update_ok layer.delete_ok

lemmas layer_ops_ok = layer_basic_ok [unfolded layer_ok_eq]

lemma some_pair: "x \<noteq> None \<Longrightarrow> \<exists>a b. x = Some (a, b)"
  by (cases x) auto

lemma run_op_ok:
  assumes "layer_ok E s"
  shows "\<exists>s'. run_op E oper s = Some s' \<and> layer_ok E s' \<and> store_step s s'"
proof -
  have serde: "serde_laws E" using assms by (simp add: layer_ok_def)
  show ?thesis
  proof (cases oper)
    case (OpSave b)
    obtain r s' where "save_bundle E b s = Some (r, s')" using save_bundle_total [OF serde] .
    with OpSave layer_ops_ok(3) [OF assms this] show ?thesis by (simp add: run_op_def)
  next
    case (OpUpdate b)
    obtain r s' where "update_bundle E b s = Some (r, s')"
      using some_pair [OF update_bundle_total [OF serde, of b s]] by blast
    with OpUpdate layer_ops_ok(4) [OF assms this] show ?thesis by (simp add: run_op_def)
  next
    case (OpDelete i)
    obtain r s' where "delete_bundle E i s = Some (r, s')"
      using some_pair [OF delete_bundle_total [OF serde, of i s]] by blast
    with OpDelete layer_ops_ok(5) [OF assms this] show ?thesis by (simp add: run_op_def)
  next
    case (OpGet i)
    with layer_ops_ok(1) [OF assms prod.collapse [symmetric]] show ?thesis by (simp add: run_op_def)
  next
    case OpAll
    with layer_ops_ok(2) [OF assms prod.collapse [symmetric]] show ?thesis by (simp add: run_op_def)
  next
    case OpCleanup
    obtain n s' where c: "cleanup_expired_bundles E s = Some (n, s')" using cleanup_total [OF serde] .
    note st = cleanup_step [OF serde c]
    have "layer_ok E s'" using well_formed_subseq [OF st(3)] assms st(1)
      by (simp add: layer_ok_def store_step_def)
    with OpCleanup c st(1) show ?thesis by (simp add: run_op_def)
  qed
qed

lemma run_ops_ok:
  assumes "layer_ok E s"
  shows "\<exists>s'. run_ops E ops s = Some s' \<and> layer_ok E s' \<and> store_step s s'"
  using assms
proof (induction ops arbitrary: s)
  case (Cons oper ops)
  from run_op_ok [OF Cons.prems] obtain t where t: "run_op E oper s = Some t" "layer_ok E t" "store_step s t"
    by blast
  from Cons.IH [OF t(2)] t store_step_trans [OF t(3)] show ?case by auto
qed simp

lemma sample_store_simps [simp]:
  "capacity (fst sample_store) = 1" "storage_dir (fst sample_store) = ''/n''"
  "store_view E sample_store = []" "store_sweep E sample_store = []"
  by (simp_all add: sample_store_view store_sweep_Nil) (simp_all add: sample_store_def)

lemma sample_layer_ok: "layer_ok sample_env sample_store"
  by (simp add: layer_ok_def sample_serde_laws sample_store_view well_formed_Nil)

section \<open>Properties\<close>

text \<open>
  C6. Whatever the clock and the disk do, with reads and writes that may fail at any point,
  no sequence of storage operations panics or leaves a file with two bundles of one
  identifier or with more bundles than the capacity; and it touches no file but its own two.
  The operations are those the program calls, so \<open>save_ack_if_new_for_data\<close> is not one.
\<close>

theorem storage_invariant:
  assumes "serde_laws E" and "well_formed (store_view E s) (capacity (fst s))"
  shows "\<exists>s'. run_ops E ops s = Some s' \<and> distinct (map b_id (store_view E s')) \<and>
    length (store_view E s') \<le> capacity (fst s) \<and>
    (\<forall>p. p \<noteq> bundles_file (storage_dir (fst s)) \<longrightarrow> p \<noteq> tmp_file (storage_dir (fst s)) \<longrightarrow>
       disk (snd s') p = disk (snd s) p)"
proof -
  have "layer_ok E s" using assms by (simp add: layer_ok_def)
  from run_ops_ok [OF this] obtain s' where r: "run_ops E ops s = Some s'"
    and ok: "layer_ok E s'" and st: "store_step s s'" by blast
  have "distinct (map b_id (store_view E s'))" "length (store_view E s') \<le> capacity (fst s)"
    using ok st by (simp_all add: layer_ok_def well_formed_def store_step_def)
  moreover have "\<forall>p. p \<noteq> bundles_file (storage_dir (fst s)) \<longrightarrow> p \<noteq> tmp_file (storage_dir (fst s)) \<longrightarrow>
      disk (snd s') p = disk (snd s) p"
    using st by (simp add: store_step_def store_frame_def)
  ultimately show ?thesis using r by blast
qed

theorem storage_invariant_witness:
  "\<exists>s'. run_ops sample_env [OpSave sample_bundle, OpAll, OpDelete 7, OpCleanup] sample_store = Some s' \<and>
     length (store_view sample_env s') \<le> 1"
  using storage_invariant [OF sample_serde_laws, of sample_store
      "[OpSave sample_bundle, OpAll, OpDelete 7, OpCleanup]"]
  by (auto simp: well_formed_Nil simp del: run_ops.simps)

text \<open>
  C7. A crash at any point of \<open>save_to_file\<close>, after any of its file operations and
  with any of them failing, leaves the file with the bundles it held or with the bundles that
  were being written, never with a part of them. If the file was synced before, it is synced
  at every such point, so that a loss of power there leaves one of the two as well.
\<close>

theorem crash_leaves_old_or_new:
  assumes "serde_laws E" and "payload_of E (bundles L) = Some payload"
    and "run_io (take k (write_steps E (storage_dir L) payload)) W = (ok, W')"
  shows "(disk_bundles E (storage_dir L) W' = disk_bundles E (storage_dir L) W \<or>
      disk_bundles E (storage_dir L) W' = bundles L) \<and>
    (bundles_file (storage_dir L) \<notin> unsynced W \<longrightarrow> bundles_file (storage_dir L) \<notin> unsynced W' \<and>
      (\<forall>V. power_loss W' V \<longrightarrow> disk_bundles E (storage_dir L) V = disk_bundles E (storage_dir L) W \<or>
        disk_bundles E (storage_dir L) V = bundles L))"
proof -
  have w: "snd (run_io (take k (write_steps E (storage_dir L) payload)) W) = W'" using assms(3) by simp
  from write_prefix_atomic [OF w] payload_parse [OF assms(1,2)]
  have d: "disk_bundles E (storage_dir L) W' = disk_bundles E (storage_dir L) W \<or>
      disk_bundles E (storage_dir L) W' = bundles L" by (auto simp: disk_bundles_def)
  have "disk_bundles E (storage_dir L) V = disk_bundles E (storage_dir L) W'"
    if "bundles_file (storage_dir L) \<notin> unsynced W'" "power_loss W' V" for V
    using that by (simp add: power_loss_def disk_bundles_def)
  with d write_prefix_synced [OF w] show ?thesis by simp
qed

definition sample_layer :: StorageLayer where
  "sample_layer = \<lparr>storage_dir = ''/n'', bundles = [sample_bundle], capacity = 5\<rparr>"

theorem crash_leaves_old_or_new_witness:
  "\<exists>payload ok W'. payload_of sample_env [sample_bundle] = Some payload \<and>
     run_io (take 2 (write_steps sample_env ''/n'' payload)) sample_world = (ok, W') \<and>
     (disk_bundles sample_env ''/n'' W' = [] \<or> disk_bundles sample_env ''/n'' W' = [sample_bundle])"
proof -
  obtain payload where p: "payload_of sample_env (bundles sample_layer) = Some payload"
    using payload_total [OF sample_serde_laws] .
  obtain ok W' where r: "run_io (take 2 (write_steps sample_env (storage_dir sample_layer) payload)) sample_world = (ok, W')"
    by fastforce
  have "disk_bundles sample_env ''/n'' sample_world = []" by (simp add: disk_bundles_def sample_world_def)
  then show ?thesis using crash_leaves_old_or_new [OF sample_serde_laws p r, THEN conjunct1] p r
    by (auto simp: sample_layer_def)
qed

text \<open>
  On a working disk \<open>update_bundle\<close> replaces the bundle with the same identifier in
  its place, exactly if there is one and, for a data bundle, no acknowledgement of it is
  stored; otherwise it returns false and the file is unchanged.
\<close>

lemma update_bundle_correct:
  assumes "serde_laws E" and "io_ok E"
  shows "\<exists>r s'. update_bundle E b s = Some (r, s') \<and>
    r = (has_id (store_view E s) (b_id b) \<and> \<not> (is_Data (b_kind b) \<and> has_ack (store_view E s) (b_id b))) \<and>
    store_view E s' = (if r then update_first (\<lambda>x. b_id x = b_id b) (\<lambda>_. b) (store_view E s) else store_view E s)"
proof -
  obtain r s' where u: "update_bundle E b s = Some (r, s')"
    using some_pair [OF update_bundle_total [OF assms(1), of b s]] by blast
  from layer.update_exact [OF conjI [OF assms] u] show ?thesis
    using u by (auto simp: rejects_def replace_bundle_def)
qed

text \<open>
  C33. On a working disk \<open>delete_bundle\<close> removes the bundle with the identifier, keeps all
  others in their order, and returns whether there was one.
\<close>

theorem delete_bundle_correct:
  assumes "serde_laws E" and "io_ok E"
  shows "\<exists>s'. delete_bundle E i s = Some (has_id (store_view E s) i, s') \<and>
    store_view E s' = filter (\<lambda>b. b_id b \<noteq> i) (store_view E s)"
proof -
  obtain r s' where d: "delete_bundle E i s = Some (r, s')"
    using some_pair [OF delete_bundle_total [OF assms(1), of i s]] by blast
  from layer.delete_exact [OF conjI [OF assms] d] show ?thesis using d by (simp add: remove_id_def)
qed

theorem delete_bundle_correct_witness:
  "\<exists>s'. delete_bundle sample_env 7 sample_store = Some (False, s') \<and> store_view sample_env s' = []"
  using delete_bundle_correct [OF sample_serde_laws sample_io_ok, of 7 sample_store]
  by (simp add: sample_store_view has_id_def)

text \<open>
  A bundle that \<open>save_bundle\<close> reports as saved is read back by \<open>get_bundle\<close>
  on any layer of that directory, whatever that layer had in memory.
\<close>

lemma get_after_save:
  assumes "serde_laws E" and "io_ok E" and "well_formed (store_view E s) (capacity (fst s))"
    and "save_bundle E b s = Some (True, s')" and "storage_dir L = storage_dir (fst s)"
  shows "fst (get_bundle E (b_id b) (L, snd s')) = Some b"
proof -
  have "layer_ok E s" using assms(1,3) by (simp add: layer_ok_def)
  from layer_ops_ok(3) [OF this assms(4)] have ok: "layer_ok E s'" and st: "store_step s s'" by simp_all
  have "b \<in> set (store_view E s')"
    using layer.save_exact [OF conjI [OF assms(1,2)] assms(4)] by simp
  moreover have "store_view E (L, snd s') = store_view E s'"
    using st assms(5) by (simp add: store_view_def store_step_def)
  moreover have "distinct (map b_id (store_view E s'))" using ok by (simp add: layer_ok_def well_formed_def)
  ultimately have "find_id (b_id b) (store_view E (L, snd s')) = Some b" by (simp add: find_id_eq)
  with layer.get_exact [OF conjI [OF assms(1,2)] prod.collapse [symmetric], of "b_id b" "(L, snd s')"]
  show ?thesis by simp
qed

section \<open>Restarts\<close>

text \<open>
  The specification of the operations on a plain list of bundles that do not expire, and the
  lives of a node: each starts with \<open>StorageLayer::new\<close> and runs some operations.
\<close>

fun apply_op :: "nat \<Rightarrow> store_op \<Rightarrow> Bundle list \<Rightarrow> Bundle list" where
  "apply_op cap (OpSave b) bs = (if refuses bs cap b then bs else bs @ [b])"
| "apply_op cap (OpUpdate b) bs = (if rejects bs b then bs else replace_bundle b bs)"
| "apply_op cap (OpDelete i) bs = filter (\<lambda>b. b_id b \<noteq> i) bs"
| "apply_op cap _ bs = bs"

fun lives :: "'v env \<Rightarrow> string \<Rightarrow> nat \<Rightarrow> store_op list list \<Rightarrow> world \<Rightarrow> world option" where
  "lives E directory cap [] W = Some W"
| "lives E directory cap (ops # opss) W =
     do { s \<leftarrow> storage_new E directory cap W; s \<leftarrow> run_ops E ops s; lives E directory cap opss (snd s) }"

fun brings :: "store_op \<Rightarrow> Bundle set" where
  "brings (OpSave b) = {b}"
| "brings (OpUpdate b) = {b}"
| "brings _ = {}"

definition lasting :: "'v env \<Rightarrow> nat \<Rightarrow> nat \<Rightarrow> Bundle set \<Rightarrow> bool" where
  "lasting E a z B \<longleftrightarrow> (\<forall>b \<in> B. \<forall>n. a \<le> n \<longrightarrow> n < z \<longrightarrow> \<not> expired_at E (now E n) b)"

lemma lasting_Un [simp]: "lasting E a z (A \<union> B) \<longleftrightarrow> lasting E a z A \<and> lasting E a z B"
  by (auto simp: lasting_def)

lemma lasting_unexpired: "lasting E a z (set bs) \<Longrightarrow> a \<le> n \<Longrightarrow> n + length bs \<le> z \<Longrightarrow> unexpired E n bs = bs"
  by (induction bs arbitrary: n) (auto simp: lasting_def)

lemma apply_op_subset: "set (apply_op cap oper bs) \<subseteq> set bs \<union> brings oper"
  using set_replace_subset by (cases oper) auto

lemma apply_op_lasting:
  "lasting E a z (set bs) \<Longrightarrow> lasting E a z (brings oper) \<Longrightarrow> lasting E a z (set (apply_op cap oper bs))"
  using apply_op_subset [of cap oper bs] by (auto simp: lasting_def)

lemma fold_lasting:
  "lasting E a z (set bs) \<Longrightarrow> lasting E a z (\<Union>(brings ` set ops)) \<Longrightarrow>
   lasting E a z (set (fold (apply_op cap) ops bs))"
  by (induction ops arbitrary: bs) (simp_all add: apply_op_lasting)

lemma cleanup_ticks:
  assumes "serde_laws E" and "io_ok E" and "cleanup_expired_bundles E s = Some (n, s')"
  shows "tick (snd s) \<le> clock_after_refresh E s"
    and "clock_after_refresh E s + length (store_view E s) \<le> tick (snd s')"
proof -
  define t where "t = refresh_from_disk E s"
  have t: "bundles (fst t) = store_view E s" "tick (snd s) \<le> tick (snd t)"
    using refresh_exact [OF assms(2)] refresh_step(1) [of s E] by (simp_all add: t_def store_step_def store_frame_def)
  then show "tick (snd s) \<le> clock_after_refresh E s" by (simp add: clock_after_refresh_def t_def)
  have w: "tick (snd (swept E t)) = tick (snd t) + length (store_view E s)" by (simp add: swept_def t(1))
  from assms(3) show "clock_after_refresh E s + length (store_view E s) \<le> tick (snd s')"
  proof (cases rule: cleanup_cases)
    case (1 r)
    from save_to_file_step(1) [OF assms(1) this(1)] w show ?thesis
      by (simp add: store_step_def store_frame_def clock_after_refresh_def t_def)
  next
    case 2
    then show ?thesis using w by (simp add: clock_after_refresh_def t_def)
  qed
qed

lemma save_ticks:
  assumes "serde_laws E" and "io_ok E" and "save_bundle E b s = Some (r, s')"
  shows "tick (snd s) \<le> clock_after_refresh E (refresh_from_disk E s)"
    and "clock_after_refresh E (refresh_from_disk E s) + length (store_view E s) \<le> tick (snd s')"
proof -
  let ?t = "refresh_from_disk E s"
  have t: "store_view E ?t = store_view E s" "tick (snd s) \<le> tick (snd ?t)"
    using refresh_step(1) [of s E] by (simp_all add: store_step_def store_frame_def refresh_step(2))
  have "tick (snd s) \<le> clock_after_refresh E ?t \<and> clock_after_refresh E ?t + length (store_view E s) \<le> tick (snd s')"
    using assms(3)
  proof (cases rule: save_bundle_cases)
    case (1 n u)
    with cleanup_ticks [OF assms(1,2) 1(1)] t show ?thesis by simp
  next
    case (2 n u q)
    with cleanup_ticks [OF assms(1,2) 2(1)] t save_to_file_step(1) [OF assms(1) 2(3)] show ?thesis
      by (simp add: store_step_def store_frame_def)
  qed
  then show "tick (snd s) \<le> clock_after_refresh E ?t"
    "clock_after_refresh E ?t + length (store_view E s) \<le> tick (snd s')" by simp_all
qed

lemma run_op_exact:
  assumes "serde_laws E" and "io_ok E" and "run_op E oper s = Some s'"
    and "lasting E a z (set (store_view E s))" and "a \<le> tick (snd s)" and "tick (snd s') \<le> z"
  shows "store_view E s' = apply_op (capacity (fst s)) oper (store_view E s)"
proof -
  note laws = conjI [OF assms(1,2)]
  have sweep: "unexpired E n (store_view E s) = store_view E s"
    if "tick (snd s) \<le> n" "n + length (store_view E s) \<le> tick (snd s')" for n
    using lasting_unexpired [OF assms(4)] that assms(5,6) by simp
  show ?thesis
  proof (cases oper)
    case (OpSave b)
    with assms(3) obtain r where sv: "save_bundle E b s = Some (r, s')" by (auto simp: run_op_def)
    have "store_sweep E s = store_view E s"
      using sweep save_ticks [OF assms(1,2) sv] by (simp add: store_sweep_def)
    with layer.save_exact [OF laws sv] OpSave show ?thesis by simp
  next
    case (OpUpdate b)
    with assms(3) obtain r where "update_bundle E b s = Some (r, s')" by (auto simp: run_op_def)
    with layer.update_exact [OF laws this] OpUpdate show ?thesis by simp
  next
    case (OpDelete i)
    with assms(3) obtain r where "delete_bundle E i s = Some (r, s')" by (auto simp: run_op_def)
    with layer.delete_exact [OF laws this] OpDelete show ?thesis by (simp add: remove_id_def)
  next
    case (OpGet i)
    with assms(3) refresh_step(2) [of E s] show ?thesis by (simp add: run_op_def get_bundle_def Let_def)
  next
    case OpAll
    with assms(3) refresh_step(2) [of E s] show ?thesis by (simp add: run_op_def get_all_bundles_def Let_def)
  next
    case OpCleanup
    with assms(3) obtain n where c: "cleanup_expired_bundles E s = Some (n, s')" by (auto simp: run_op_def)
    with cleanup_exact(2) [OF assms(1,2) c] cleanup_ticks [OF assms(1,2) c] sweep OpCleanup show ?thesis
      by (simp add: clock_after_refresh_def)
  qed
qed

lemma store_step_tick: "store_step s s' \<Longrightarrow> tick (snd s) \<le> tick (snd s')"
  by (simp add: store_step_def store_frame_def)

lemma run_ops_exact:
  assumes "io_ok E"
  shows "layer_ok E s \<Longrightarrow> run_ops E ops s = Some s' \<Longrightarrow> lasting E a z (set (store_view E s)) \<Longrightarrow>
    lasting E a z (\<Union>(brings ` set ops)) \<Longrightarrow> a \<le> tick (snd s) \<Longrightarrow> tick (snd s') \<le> z \<Longrightarrow>
    store_view E s' = fold (apply_op (capacity (fst s))) ops (store_view E s)"
proof (induction ops arbitrary: s)
  case (Cons oper ops)
  from run_op_ok [OF Cons.prems(1)] obtain t where t: "run_op E oper s = Some t" "layer_ok E t" "store_step s t" by blast
  have r: "run_ops E ops t = Some s'" using Cons.prems(2) t(1) by simp
  have ticks: "a \<le> tick (snd t)" "tick (snd t) \<le> z"
    using store_step_tick [OF t(3)] run_ops_ok [OF t(2), of ops] r store_step_tick [of t s'] Cons.prems(5,6) by auto
  have "serde_laws E" using t(2) by (simp add: layer_ok_def)
  note v = run_op_exact [OF this assms t(1) Cons.prems(3,5) ticks(2)]
  have l: "lasting E a z (set (store_view E t))" "lasting E a z (\<Union>(brings ` set ops))"
    using apply_op_lasting [OF Cons.prems(3)] Cons.prems(4) by (simp_all add: v)
  have "capacity (fst t) = capacity (fst s)" using t(3) by (simp add: store_step_def)
  with Cons.IH [OF t(2) r l ticks(1) Cons.prems(6)] show ?case by (simp add: v)
qed simp

lemma storage_new_total:
  assumes "io_ok E"
  shows "\<exists>L W'. storage_new E directory c W = Some (L, W')"
proof -
  let ?dir = "if is_relative directory then path_join (manifest_dir E) directory else directory"
  obtain made V where m: "(if dirs W ?dir then (True, W) else fs_create_dir_all E ?dir W) = (made, V)" by fastforce
  then have "made" using assms by (auto simp: fs_create_dir_all_def io_ok_def split: if_splits)
  obtain bs V' where "load_bundles_from_file E ?dir V = (bs, V')" by fastforce
  then show ?thesis using m \<open>made\<close> by (simp add: storage_new_def Let_def)
qed

text \<open>
  The directory as \<open>StorageLayer::new\<close> resolves it; the state a node starts with shows its file.
\<close>

definition home_dir :: "'v env \<Rightarrow> string \<Rightarrow> string" where
  "home_dir E directory = (if is_relative directory then path_join (manifest_dir E) directory else directory)"

lemma storage_new_view:
  assumes "io_ok E" and "storage_new E directory c W = Some (L, V)"
  shows "bundles L = disk_bundles E (home_dir E directory) W"
    and "store_view E (L, V) = disk_bundles E (home_dir E directory) W"
    and "capacity L = c" and "storage_dir L = home_dir E directory" and "disk V = disk W"
  using storage_new_result(1-3,6) [OF assms(2)] assms(1)
  by (simp_all add: home_dir_def store_view_def disk_bundles_def)

lemma storage_new_tick: "storage_new E directory c W = Some (L, V) \<Longrightarrow> tick W \<le> tick V"
  by (auto simp: storage_new_def load_bundles_from_file_def fs_defs Let_def split: if_splits option.splits prod.splits)

text \<open>One life: it ends, and its operations act on the list of the file as on a plain list.\<close>

lemma life:
  assumes "serde_laws E" and "io_ok E" and "well_formed (disk_bundles E (home_dir E directory) W) c"
  obtains L V s where "storage_new E directory c W = Some (L, V)" and "run_ops E ops (L, V) = Some s"
    and "tick W \<le> tick (snd s)" and "well_formed (disk_bundles E (home_dir E directory) (snd s)) c"
    and "\<And>a z. lasting E a z (set (disk_bundles E (home_dir E directory) W)) \<Longrightarrow> lasting E a z (\<Union>(brings ` set ops)) \<Longrightarrow>
      a \<le> tick W \<Longrightarrow> tick (snd s) \<le> z \<Longrightarrow>
      disk_bundles E (home_dir E directory) (snd s) = fold (apply_op c) ops (disk_bundles E (home_dir E directory) W)"
proof -
  obtain L V where n: "storage_new E directory c W = Some (L, V)" using storage_new_total [OF assms(2)] by blast
  note v = storage_new_view [OF assms(2) n]
  have ok: "layer_ok E (L, V)" using assms(1,3) v by (simp add: layer_ok_def)
  from run_ops_ok [OF this, of ops] obtain s where s: "run_ops E ops (L, V) = Some s" "layer_ok E s"
    "store_step (L, V) s" by blast
  have w: "disk_bundles E (home_dir E directory) (snd s) = store_view E s" "capacity (fst s) = c"
    using s(3) v(3,4) by (simp_all add: store_step_def store_view_def)
  have t: "tick W \<le> tick V" "tick V \<le> tick (snd s)"
    using storage_new_tick [OF n] store_step_tick [OF s(3)] by simp_all
  show ?thesis
  proof (rule that [OF n s(1)])
    show "tick W \<le> tick (snd s)" using t by simp
    show "well_formed (disk_bundles E (home_dir E directory) (snd s)) c" using s(2) w by (simp add: layer_ok_def)
  next
    fix a z
    assume "lasting E a z (set (disk_bundles E (home_dir E directory) W))" "lasting E a z (\<Union>(brings ` set ops))"
      and "a \<le> tick W" "tick (snd s) \<le> z"
    with run_ops_exact [OF assms(2) ok s(1), of a z] v t w
    show "disk_bundles E (home_dir E directory) (snd s) = fold (apply_op c) ops (disk_bundles E (home_dir E directory) W)"
      by simp
  qed
qed

lemma lives_exact:
  assumes "serde_laws E" and "io_ok E"
  shows "well_formed (disk_bundles E (home_dir E directory) W) c \<Longrightarrow>
    \<exists>V. lives E directory c opss W = Some V \<and> tick W \<le> tick V \<and>
      (\<forall>a z. lasting E a z (set (disk_bundles E (home_dir E directory) W)) \<longrightarrow>
        lasting E a z (\<Union>(brings ` set (concat opss))) \<longrightarrow> a \<le> tick W \<longrightarrow> tick V \<le> z \<longrightarrow>
        disk_bundles E (home_dir E directory) V = fold (apply_op c) (concat opss) (disk_bundles E (home_dir E directory) W))"
proof (induction opss arbitrary: W)
  case (Cons ops opss)
  obtain L V s where n: "storage_new E directory c W = Some (L, V)" and r: "run_ops E ops (L, V) = Some s"
    and t: "tick W \<le> tick (snd s)" and wf: "well_formed (disk_bundles E (home_dir E directory) (snd s)) c"
    and x: "\<And>a z. lasting E a z (set (disk_bundles E (home_dir E directory) W)) \<Longrightarrow> lasting E a z (\<Union>(brings ` set ops)) \<Longrightarrow>
      a \<le> tick W \<Longrightarrow> tick (snd s) \<le> z \<Longrightarrow>
      disk_bundles E (home_dir E directory) (snd s) = fold (apply_op c) ops (disk_bundles E (home_dir E directory) W)"
    using life [OF assms Cons.prems] by blast
  from Cons.IH [OF wf] obtain U where u: "lives E directory c opss (snd s) = Some U" "tick (snd s) \<le> tick U"
    "\<And>a z. lasting E a z (set (disk_bundles E (home_dir E directory) (snd s))) \<Longrightarrow>
       lasting E a z (\<Union>(brings ` set (concat opss))) \<Longrightarrow> a \<le> tick (snd s) \<Longrightarrow> tick U \<le> z \<Longrightarrow>
       disk_bundles E (home_dir E directory) U = fold (apply_op c) (concat opss) (disk_bundles E (home_dir E directory) (snd s))"
    by blast
  have "disk_bundles E (home_dir E directory) U =
      fold (apply_op c) (concat (ops # opss)) (disk_bundles E (home_dir E directory) W)"
    if "lasting E a z (set (disk_bundles E (home_dir E directory) W))"
      "lasting E a z (\<Union>(brings ` set (concat (ops # opss))))" "a \<le> tick W" "tick U \<le> z" for a z
    using x [of a z] u(2) u(3) [of a z] that t fold_lasting [of E a z _ ops c] by simp
  then show ?case using n r u(1,2) t by (intro exI [of _ U]) simp
qed simp

text \<open>
  C12. A node that restarts gets its bundles back, any number of times: on a working disk, from
  a directory without a bundles file, \<open>StorageLayer::new\<close> loads exactly the list that all
  operations of all earlier lives yield on a plain list of bundles, in the same order, as long
  as none of the bundles expires; it changes no file. No life and no start panics.
\<close>

theorem restart_recovers:
  assumes "serde_laws E" and "io_ok E" and "disk W (bundles_file (home_dir E directory)) = None"
  shows "\<exists>V L W'. lives E directory c opss W = Some V \<and> storage_new E directory c V = Some (L, W') \<and> disk W' = disk V \<and>
    ((\<forall>b n. OpSave b \<in> set (concat opss) \<or> OpUpdate b \<in> set (concat opss) \<longrightarrow> tick W \<le> n \<longrightarrow> n < tick V \<longrightarrow>
       \<not> expired_at E (now E n) b) \<longrightarrow>
     bundles L = fold (apply_op c) (concat opss) [])"
proof -
  have e: "disk_bundles E (home_dir E directory) W = []" using assms(3) by (simp add: disk_bundles_def)
  then obtain V where v: "lives E directory c opss W = Some V"
    "lasting E (tick W) (tick V) (\<Union>(brings ` set (concat opss))) \<Longrightarrow>
       disk_bundles E (home_dir E directory) V = fold (apply_op c) (concat opss) []"
    using lives_exact [OF assms(1,2), of directory W c opss] by (auto simp: well_formed_Nil lasting_def)
  have l: "lasting E (tick W) (tick V) (\<Union>(brings ` set (concat opss)))"
    if fresh: "\<forall>b n. OpSave b \<in> set (concat opss) \<or> OpUpdate b \<in> set (concat opss) \<longrightarrow> tick W \<le> n \<longrightarrow> n < tick V \<longrightarrow>
       \<not> expired_at E (now E n) b"
  proof -
    have "lasting E (tick W) (tick V) (brings oper)" if "oper \<in> set (concat opss)" for oper
      using fresh that by (cases oper rule: store_op.exhaust) (simp_all add: lasting_def)
    then show ?thesis unfolding lasting_def by blast
  qed
  obtain L W' where n: "storage_new E directory c V = Some (L, W')" using storage_new_total [OF assms(2)] by blast
  note w = storage_new_view(1,5) [OF assms(2) n]
  show ?thesis using v l n w by (intro exI [of _ V] exI [of _ L] exI [of _ W']) simp
qed

text \<open>Two lives within one second.\<close>

definition still_env :: "string env" where
  "still_env = sample_env\<lparr>now := (\<lambda>_. 1000)\<rparr>"

lemma still_env_laws: "serde_laws still_env" "io_ok still_env"
  using sample_serde_laws sample_io_ok by (simp_all add: still_env_def serde_laws_def io_ok_def)

theorem restart_recovers_witness:
  "\<exists>V L W'. lives still_env ''/n'' 2 [[OpSave sample_bundle], [OpSave (sample_bundle\<lparr>b_id := 8\<rparr>), OpDelete 9]] sample_world =
       Some V \<and>
     storage_new still_env ''/n'' 2 V = Some (L, W') \<and> bundles L = [sample_bundle, sample_bundle\<lparr>b_id := 8\<rparr>]"
proof -
  let ?opss = "[[OpSave sample_bundle], [OpSave (sample_bundle\<lparr>b_id := 8\<rparr>), OpDelete 9]]"
  have "\<not> expired_at still_env (now still_env n) b"
    if "OpSave b \<in> set (concat ?opss) \<or> OpUpdate b \<in> set (concat ?opss)" for b n
    using that by (auto simp: expired_at_def still_env_def sample_env_def sample_bundle_def)
  moreover have "fold (apply_op 2) (concat ?opss) [] = [sample_bundle, sample_bundle\<lparr>b_id := 8\<rparr>]"
    by (simp add: refuses_def has_id_def has_ack_def sample_bundle_def)
  moreover have "disk sample_world (bundles_file (home_dir still_env ''/n'')) = None" by (simp add: sample_world_def)
  ultimately show ?thesis using restart_recovers [OF still_env_laws, of sample_world "''/n''" 2 ?opss] by fastforce
qed

text \<open>
  C11. The lock does not cover a whole operation: when two threads with a layer of the same
  directory each read and decide before either writes, both saves report success and the
  bundle of the first one is lost.
\<close>

theorem concurrent_saves_lose_a_bundle:
  assumes "serde_laws E" and "io_ok E" and "storage_dir L1 = storage_dir L2" and "b_id b1 \<noteq> b_id b2"
    and "save_prepare E b1 (L1, W) = Some (Inr (M1, W1))"
    and "save_prepare E b2 (L2, W1) = Some (Inr (M2, W2))"
  shows "\<exists>W3 W4. commit E M1 W2 = Some (True, (M1, W3)) \<and> commit E M2 W3 = Some (True, (M2, W4)) \<and>
    has_id (disk_bundles E (storage_dir L1) W3) (b_id b1) \<and>
    \<not> has_id (disk_bundles E (storage_dir L1) W4) (b_id b1)"
  using interleaved_saves [OF assms] .

lemma prepare_empty:
  assumes "serde_laws E" and "io_ok E" and "store_view E s = []" and "0 < capacity (fst s)"
  shows "\<exists>L W. save_prepare E b s = Some (Inr (L, W)) \<and> store_view E (L, W) = []"
proof -
  obtain n u where c: "cleanup_expired_bundles E (refresh_from_disk E s) = Some (n, u)"
    using cleanup_total [OF assms(1)] .
  note x = cleanup_exact [OF assms(1,2) c] and y = cleanup_step(1) [OF assms(1) c]
  have v: "bundles (fst u) = []" "store_view E u = []" using x by (simp_all add: refresh_step(2) assms(3))
  have cap: "capacity (fst u) = capacity (fst s)" using y refresh_step(1) [of s E] by (simp add: store_step_def)
  obtain L W where u: "u = (L, W)" by (cases u)
  then have "save_prepare E b s = Some (Inr (L\<lparr>bundles := bundles L @ [b]\<rparr>, W))"
    using c v cap assms(4) by (simp add: save_prepare_def has_ack_for_data_id_def has_ack_def has_id_def)
  then show ?thesis using v u by (simp add: store_view_def)
qed

theorem concurrent_saves_lose_a_bundle_witness:
  "\<exists>M1 W1 M2 W2 W3 W4.
     save_prepare sample_env sample_bundle sample_store = Some (Inr (M1, W1)) \<and>
     save_prepare sample_env (sample_bundle\<lparr>b_id := 8\<rparr>) (fst sample_store, W1) = Some (Inr (M2, W2)) \<and>
     commit sample_env M1 W2 = Some (True, (M1, W3)) \<and> commit sample_env M2 W3 = Some (True, (M2, W4)) \<and>
     \<not> has_id (disk_bundles sample_env ''/n'' W4) 7"
proof -
  note laws = sample_serde_laws sample_io_ok
  obtain M1 W1 where p1: "save_prepare sample_env sample_bundle sample_store = Some (Inr (M1, W1))"
    and v1: "store_view sample_env (M1, W1) = []"
    using prepare_empty [OF laws, of sample_store sample_bundle] by auto
  have q1: "save_prepare sample_env sample_bundle (fst sample_store, snd sample_store) = Some (Inr (M1, W1))"
    using p1 by simp
  have "store_view sample_env (fst sample_store, W1) = []"
    using v1 save_prepare_exact(4) [OF laws p1] by (simp add: store_view_def)
  then obtain M2 W2 where p2:
    "save_prepare sample_env (sample_bundle\<lparr>b_id := 8\<rparr>) (fst sample_store, W1) = Some (Inr (M2, W2))"
    using prepare_empty [OF laws, of "(fst sample_store, W1)" "sample_bundle\<lparr>b_id := 8\<rparr>"] by auto
  have ne: "b_id sample_bundle \<noteq> b_id (sample_bundle\<lparr>b_id := 8\<rparr>)" by (simp add: sample_bundle_def)
  from concurrent_saves_lose_a_bundle [OF laws refl ne q1 p2] p1 p2 show ?thesis
    by (auto simp: sample_bundle_def)
qed

end
