(* ===== verification/Bundle_Manager.thy ===== *)
theory Bundle_Manager
  imports Storage_Facts Sample_Env
begin

text \<open>
  \<open>routing/bundleManager.rs\<close>: the bundle manager of a node. Its operations act on the
  storage layer it owns; \<open>on_storage\<close> and \<open>on_storage_opt\<close> are the field access
  \<open>self.storage.f(..)\<close>. The manager provides the store interface again, to the routing
  engine, and on top of it the handling of acknowledgements.
\<close>

record BundleManager =
  bm_node_id :: uuid
  bm_storage :: StorageLayer

type_synonym manager = "BundleManager \<times> world"

definition on_storage :: "(store \<Rightarrow> 'a \<times> store) \<Rightarrow> manager \<Rightarrow> 'a \<times> manager" where
  "on_storage f m = (let (M, W) = m; (r, (L, W)) = f (bm_storage M, W) in (r, (M\<lparr>bm_storage := L\<rparr>, W)))"

definition on_storage_opt ::
    "(store \<Rightarrow> ('a \<times> store) option) \<Rightarrow> manager \<Rightarrow> ('a \<times> manager) option" where
  "on_storage_opt f m =
     (let (M, W) = m in
      do { (r, (L, W)) \<leftarrow> f (bm_storage M, W); Some (r, (M\<lparr>bm_storage := L\<rparr>, W)) })"

section \<open>The operations\<close>

definition bm_new :: "'v env \<Rightarrow> uuid \<Rightarrow> string \<Rightarrow> world \<Rightarrow> manager option" where
  "bm_new E i name W =
     do {
       (L, W) \<leftarrow> storage_new E (''./bundles/'' @ name) 100 W;
       Some (\<lparr>bm_node_id = i, bm_storage = L\<rparr>, W)
     }"

definition bm_get_bundles_from_node :: "'v env \<Rightarrow> manager \<Rightarrow> Bundle list \<times> manager" where
  "bm_get_bundles_from_node E = on_storage (get_all_bundles E)"

definition bm_get :: "'v env \<Rightarrow> uuid \<Rightarrow> manager \<Rightarrow> Bundle option \<times> manager" where
  "bm_get E i = on_storage (get_bundle E i)"

definition bm_delete_bundle :: "'v env \<Rightarrow> uuid \<Rightarrow> manager \<Rightarrow> (bool \<times> manager) option" where
  "bm_delete_bundle E i = on_storage_opt (delete_bundle E i)"

definition bm_save_bundle :: "'v env \<Rightarrow> Bundle \<Rightarrow> manager \<Rightarrow> (bool \<times> manager) option" where
  "bm_save_bundle E b = on_storage_opt (save_bundle E b)"

definition bm_update_bundle :: "'v env \<Rightarrow> Bundle \<Rightarrow> manager \<Rightarrow> (bool \<times> manager) option" where
  "bm_update_bundle E b = on_storage_opt (update_bundle E b)"

definition bm_upsert_bundle :: "'v env \<Rightarrow> Bundle \<Rightarrow> manager \<Rightarrow> (bool \<times> manager) option" where
  "bm_upsert_bundle E b m =
     (let (r, m) = bm_get E (b_id b) m
      in if r \<noteq> None then bm_update_bundle E b m else bm_save_bundle E b m)"

definition bm_all :: "'v env \<Rightarrow> manager \<Rightarrow> Bundle list \<times> manager" where
  "bm_all E = on_storage (get_all_bundles E)"

definition bm_has_ack_for_data_bundle :: "'v env \<Rightarrow> uuid \<Rightarrow> manager \<Rightarrow> bool \<times> manager" where
  "bm_has_ack_for_data_bundle E d m =
     (let (bs, m) = on_storage (get_all_bundles E) m in (has_ack bs d, m))"

definition bm_has_bundle :: "'v env \<Rightarrow> uuid \<Rightarrow> manager \<Rightarrow> bool \<times> manager" where
  "bm_has_bundle E i m = (let (r, m) = bm_get E i m in (r \<noteq> None, m))"

text \<open>
  The cleanup of the acknowledged data bundle: \<open>handle_incoming_ack\<close>, its first part.
\<close>

definition settle_data :: "'v env \<Rightarrow> uuid \<Rightarrow> manager \<Rightarrow> manager option" where
  "settle_data E d m =
     (let (r, m) = bm_get E d m
      in case r of
           Some data_bundle \<Rightarrow>
             do {
               (_, m) \<leftarrow> bm_update_bundle E (data_bundle\<lparr>b_status := Delivered\<rparr>) m;
               (_, m) \<leftarrow> bm_delete_bundle E d m;
               Some m
             }
         | None \<Rightarrow> Some m)"

text \<open>The duplicate test; \<open>||\<close> looks the second condition up only if the first fails.\<close>

definition ack_known :: "'v env \<Rightarrow> uuid \<Rightarrow> uuid \<Rightarrow> manager \<Rightarrow> bool \<times> manager" where
  "ack_known E d i m =
     (let (k, m) = bm_has_ack_for_data_bundle E d m
      in if k then (True, m) else bm_has_bundle E i m)"

definition handle_incoming_ack :: "'v env \<Rightarrow> Bundle \<Rightarrow> manager \<Rightarrow> (bool \<times> manager) option" where
  "handle_incoming_ack E ack m =
     (case b_kind ack of
        Ack d \<Rightarrow>
          do {
            m \<leftarrow> settle_data E d m;
            let (known, m) = ack_known E d (b_id ack) m;
            if known then Some (False, m) else bm_save_bundle E ack m
          }
      | _ \<Rightarrow> Some (False, m))"

section \<open>The manager provides the store interface\<close>

definition bm_store :: "manager \<Rightarrow> store" where
  "bm_store m = (bm_storage (fst m), snd m)"

definition bm_view :: "'v env \<Rightarrow> manager \<Rightarrow> Bundle list" where
  "bm_view E m = store_view E (bm_store m)"

definition bm_cap :: "manager \<Rightarrow> nat" where
  "bm_cap m = capacity (bm_storage (fst m))"

text \<open>What an operation of the manager leaves alone: its identity and the rest of the world.\<close>

definition bm_step :: "manager \<Rightarrow> manager \<Rightarrow> bool" where
  "bm_step m m' \<longleftrightarrow> store_step (bm_store m) (bm_store m') \<and> bm_node_id (fst m') = bm_node_id (fst m)"

lemma bm_cap_store: "capacity (fst (bm_store m)) = bm_cap m"
  by (simp add: bm_store_def bm_cap_def)

lemma on_storage_iff:
  "on_storage f m = (r, m') \<longleftrightarrow>
     f (bm_store m) = (r, bm_store m') \<and> bm_node_id (fst m') = bm_node_id (fst m)"
  by (cases m; cases m'; cases "f (bm_store m)")
    (auto simp: on_storage_def bm_store_def split: prod.splits)

lemma on_storage_opt_iff:
  "on_storage_opt f m = Some (r, m') \<longleftrightarrow>
     f (bm_store m) = Some (r, bm_store m') \<and> bm_node_id (fst m') = bm_node_id (fst m)"
  by (cases m; cases m'; cases "f (bm_store m)")
    (auto simp: on_storage_opt_def bm_store_def split: prod.splits)

lemma on_storage_opt_None: "on_storage_opt f m = None \<longleftrightarrow> f (bm_store m) = None"
  by (cases m; cases "f (bm_store m)") (auto simp: on_storage_opt_def bm_store_def)

lemmas bm_op_defs = bm_get_bundles_from_node_def bm_get_def bm_delete_bundle_def bm_save_bundle_def
  bm_update_bundle_def bm_all_def

lemmas bm_lift = on_storage_iff on_storage_opt_iff on_storage_opt_None bm_view_def
  bm_step_def bm_cap_store [symmetric]

interpretation mgr: bundle_store "bm_view E" bm_step bm_cap "\<lambda>_. serde_laws E"
    "bm_get E" "bm_all E" "bm_save_bundle E" "bm_update_bundle E" "bm_delete_bundle E"
  for E :: "'v env"
proof (unfold_locales, unfold bm_op_defs bm_lift, goal_cases)
  case (4 s i x s')
  then show ?case by (elim conjE) (drule (1) layer.get_law, simp)
next
  case (5 s bs s')
  then show ?case by (elim conjE) (drule (1) layer.all_law, simp)
next
  case (6 s b r s')
  then show ?case by (elim conjE) (drule (1) layer.save_law, simp)
next
  case (7 s b r s')
  then show ?case by (elim conjE) (drule (1) layer.update_law, simp)
next
  case (8 s i r s')
  then show ?case by (elim conjE) (drule (1) layer.delete_law, simp)
next
  case (2 s s' s'')
  then show ?case using store_step_trans [of "bm_store s" "bm_store s'" "bm_store s''"] by auto
qed (simp_all add: layer.total, simp add: store_step_def)

interpretation mgr: reliable_store "bm_view E" bm_step bm_cap "\<lambda>_. serde_laws E"
    "bm_get E" "bm_all E" "bm_save_bundle E" "bm_update_bundle E" "bm_delete_bundle E"
    "\<lambda>_. serde_laws E \<and> io_ok E" "\<lambda>m. store_sweep E (bm_store m)"
  for E :: "'v env"
proof (unfold_locales, unfold bm_op_defs bm_lift, goal_cases)
  case (3 s i x s')
  then show ?case using layer.get_exact by (elim conjE) blast
next
  case (4 s bs s')
  then show ?case using layer.all_exact by (elim conjE) blast
next
  case (5 s b r s')
  then show ?case using layer.save_exact by (elim conjE) blast
next
  case (6 s b r s')
  then show ?case using layer.update_exact by (elim conjE) blast
next
  case (7 s i r s')
  then show ?case using layer.delete_exact by (elim conjE) blast
qed (auto simp: layer.sweep_view)

section \<open>The manager's own operations\<close>

definition manager_ok :: "'v env \<Rightarrow> manager \<Rightarrow> bool" where
  "manager_ok E m \<longleftrightarrow> serde_laws E \<and> well_formed (bm_view E m) (bm_cap m)"

lemma mgr_ok_eq: "bundle_store.ok (bm_view E) bm_cap (\<lambda>_. serde_laws E) m = manager_ok E m"
  by (simp add: mgr.ok_def manager_ok_def)

lemmas mgr_basic_ok = mgr.get_ok mgr.all_ok mgr.save_ok mgr.update_ok mgr.delete_ok

lemmas mgr_ops_ok = mgr_basic_ok [unfolded mgr_ok_eq]

lemma upsert_manager_ok:
  assumes "manager_ok E m" and "bm_upsert_bundle E b m = Some (r, m')"
  shows "manager_ok E m' \<and> bm_step m m' \<and> set (bm_view E m') \<subseteq> insert b (set (bm_view E m))"
proof -
  obtain x m1 where g: "bm_get E (b_id b) m = (x, m1)" by (cases "bm_get E (b_id b) m")
  from assms(2) have "(if x \<noteq> None then bm_update_bundle E b m1 else bm_save_bundle E b m1) = Some (r, m')"
    by (simp add: bm_upsert_bundle_def g)
  from mgr.upsert_ok [unfolded mgr_ok_eq, OF assms(1) g this] show ?thesis .
qed

lemma upsert_total:
  assumes "manager_ok E m"
  shows "bm_upsert_bundle E b m \<noteq> None"
proof -
  obtain x m1 where g: "bm_get E (b_id b) m = (x, m1)" by (cases "bm_get E (b_id b) m")
  with mgr_ops_ok(1) [OF assms g] have "serde_laws E" by (simp add: manager_ok_def)
  then show ?thesis by (simp add: bm_upsert_bundle_def g mgr.total del: not_None_eq)
qed

lemma has_bundle_ok:
  assumes "manager_ok E m" and "bm_has_bundle E i m = (r, m')"
  shows "manager_ok E m' \<and> bm_step m m' \<and> bm_view E m' = bm_view E m"
  using assms mgr_ops_ok(1) [OF assms(1)] by (auto simp: bm_has_bundle_def split: prod.splits)

lemma has_ack_ok:
  assumes "manager_ok E m" and "bm_has_ack_for_data_bundle E d m = (r, m')"
  shows "manager_ok E m' \<and> bm_step m m' \<and> bm_view E m' = bm_view E m"
  using assms mgr_ops_ok(2) [OF assms(1)]
  by (auto simp: bm_has_ack_for_data_bundle_def bm_all_def split: prod.splits)

lemma ack_known_ok:
  assumes "manager_ok E m" and "ack_known E d i m = (r, m')"
  shows "manager_ok E m' \<and> bm_step m m' \<and> bm_view E m' = bm_view E m"
proof -
  obtain k m1 where h: "bm_has_ack_for_data_bundle E d m = (k, m1)"
    by (cases "bm_has_ack_for_data_bundle E d m")
  from has_ack_ok [OF assms(1) h] have m1: "manager_ok E m1" "bm_step m m1" "bm_view E m1 = bm_view E m"
    by simp_all
  show ?thesis
  proof (cases k)
    case True
    then show ?thesis using assms(2) h m1 by (simp add: ack_known_def)
  next
    case False
    with assms(2) h have "bm_has_bundle E i m1 = (r, m')" by (simp add: ack_known_def)
    from has_bundle_ok [OF m1(1) this] m1 mgr.step_trans show ?thesis by fastforce
  qed
qed

text \<open>The stored form of a bundle whose acknowledgement has arrived.\<close>

abbreviation delivered :: "Bundle \<Rightarrow> Bundle" where
  "delivered b \<equiv> b\<lparr>b_status := Delivered\<rparr>"

lemma settle_data_ok:
  assumes "manager_ok E m" and "settle_data E d m = Some m'"
  shows "manager_ok E m' \<and> bm_step m m' \<and>
    set (bm_view E m') \<subseteq> set (bm_view E m) \<union> delivered ` {b \<in> set (bm_view E m). b_id b = d}"
proof -
  obtain x m1 where g: "bm_get E d m = (x, m1)" by (cases "bm_get E d m")
  from mgr.settle_ok [unfolded mgr_ok_eq, OF assms(1) g, of delivered m'] assms(2)
  show ?thesis by (simp add: settle_data_def g)
qed

lemma handle_incoming_ack_ok:
  assumes "manager_ok E m" and "handle_incoming_ack E ack m = Some (r, m')"
  shows "manager_ok E m' \<and> bm_step m m' \<and>
    set (bm_view E m') \<subseteq> insert ack (set (bm_view E m) \<union>
      delivered ` {b \<in> set (bm_view E m). b_kind ack = Ack (b_id b)})"
proof (cases "is_Ack (b_kind ack)")
  case False
  then show ?thesis using assms mgr.step_refl
    by (cases "b_kind ack") (auto simp: handle_incoming_ack_def)
next
  case True
  then obtain d where d: "b_kind ack = Ack d" by (cases "b_kind ack") auto
  from assms(2) d obtain m1 where s: "settle_data E d m = Some m1"
    by (auto simp: handle_incoming_ack_def bind_eq_Some_conv)
  obtain k m2 where a: "ack_known E d (b_id ack) m1 = (k, m2)" by (cases "ack_known E d (b_id ack) m1")
  from settle_data_ok [OF assms(1) s] have m1: "manager_ok E m1" "bm_step m m1"
    "set (bm_view E m1) \<subseteq> set (bm_view E m) \<union> delivered ` {b \<in> set (bm_view E m). b_id b = d}"
    by simp_all
  from ack_known_ok [OF m1(1) a] have m2: "manager_ok E m2" "bm_step m1 m2" "bm_view E m2 = bm_view E m1"
    by simp_all
  have st: "bm_step m m2" using m1(2) m2(2) by (rule mgr.step_trans)
  show ?thesis
  proof (cases k)
    case True
    with assms(2) d s a have "m' = m2" by (simp add: handle_incoming_ack_def)
    then show ?thesis using m1(3) m2 st d by auto
  next
    case False
    with assms(2) d s a have "bm_save_bundle E ack m2 = Some (r, m')"
      by (simp add: handle_incoming_ack_def)
    from mgr_ops_ok(3) [OF m2(1) this] mgr.step_trans [OF st] m1(3) m2(3) d show ?thesis by auto
  qed
qed

section \<open>Exact results on a working disk\<close>

text \<open>Saving and upserting, over the list of stored bundles.\<close>

lemma save_view_exact:
  assumes "serde_laws E" and "io_ok E" and "bm_save_bundle E b m = Some (r, m')"
  obtains t where "r = (\<not> refuses (unexpired E t (bm_view E m)) (bm_cap m) b)"
    and "bm_view E m' = (if r then unexpired E t (bm_view E m) @ [b] else unexpired E t (bm_view E m))"
    and "bm_step m m'"
  using mgr.save_exact [OF conjI [OF assms(1,2)] assms(3)] mgr.save_law [OF assms(1,3)]
  by (auto simp: store_sweep_def bm_view_def)

lemma update_view_exact:
  assumes "serde_laws E" and "io_ok E" and "bm_update_bundle E b m = Some (r, m')"
  shows "r = (\<not> rejects (bm_view E m) b)"
    and "bm_view E m' = (if rejects (bm_view E m) b then bm_view E m else replace_bundle b (bm_view E m))"
    and "bm_step m m'"
  using mgr.update_exact [OF conjI [OF assms(1,2)] assms(3)] mgr.update_law [OF assms(1,3)] by auto

lemma upsert_view_exact:
  assumes "serde_laws E" and "io_ok E" and "bm_upsert_bundle E b m = Some (r, m')"
  shows "has_id (bm_view E m) (b_id b) \<Longrightarrow> bm_view E m' =
      (if rejects (bm_view E m) b then bm_view E m else replace_bundle b (bm_view E m))"
    and "\<not> has_id (bm_view E m) (b_id b) \<Longrightarrow> \<exists>t. bm_view E m' =
      (if refuses (unexpired E t (bm_view E m)) (bm_cap m) b then unexpired E t (bm_view E m)
       else unexpired E t (bm_view E m) @ [b])"
    and "bm_step m m'"
proof -
  let ?v = "bm_view E m"
  obtain x m1 where g: "bm_get E (b_id b) m = (x, m1)" by (cases "bm_get E (b_id b) m")
  from assms(3) have u: "(if x \<noteq> None then bm_update_bundle E b m1 else bm_save_bundle E b m1) = Some (r, m')"
    by (simp add: bm_upsert_bundle_def g)
  have x: "x = find_id (b_id b) ?v" using mgr.get_exact [OF conjI [OF assms(1,2)] g] by simp
  from mgr.get_law [OF assms(1) g] have v1: "bm_view E m1 = ?v" and s1: "bm_step m m1" by simp_all
  have cap: "bm_cap m1 = bm_cap m" using s1 by (rule mgr.step_cap)
  have "bm_step m m' \<and> (if has_id ?v (b_id b)
      then bm_view E m' = (if rejects ?v b then ?v else replace_bundle b ?v)
      else (\<exists>t. bm_view E m' =
        (if refuses (unexpired E t ?v) (bm_cap m) b then unexpired E t ?v else unexpired E t ?v @ [b])))"
  proof (cases "has_id ?v (b_id b)")
    case True
    with u x have "bm_update_bundle E b m1 = Some (r, m')" using find_id_None [of "b_id b" ?v] by simp
    from update_view_exact [OF assms(1,2) this] True v1 mgr.step_trans [OF s1] show ?thesis by simp
  next
    case False
    with u x have "bm_save_bundle E b m1 = Some (r, m')" using find_id_None [of "b_id b" ?v] by simp
    from save_view_exact [OF assms(1,2) this] obtain t where
      "r = (\<not> refuses (unexpired E t ?v) (bm_cap m) b)"
      "bm_view E m' = (if r then unexpired E t ?v @ [b] else unexpired E t ?v)" "bm_step m1 m'"
      unfolding v1 cap by blast
    then show ?thesis using False mgr.step_trans [OF s1] by auto
  qed
  then show "has_id ?v (b_id b) \<Longrightarrow> bm_view E m' = (if rejects ?v b then ?v else replace_bundle b ?v)"
    and "\<not> has_id ?v (b_id b) \<Longrightarrow> \<exists>t. bm_view E m' =
      (if refuses (unexpired E t ?v) (bm_cap m) b then unexpired E t ?v else unexpired E t ?v @ [b])"
    and "bm_step m m'" by simp_all
qed

lemma has_bundle_exact:
  assumes "serde_laws E" and "io_ok E" and "bm_has_bundle E i m = (r, m')"
  shows "r = has_id (bm_view E m) i" and "bm_view E m' = bm_view E m" and "bm_step m m'"
proof -
  obtain x where g: "bm_get E i m = (x, m')" and r: "r = (x \<noteq> None)"
    using assms(3) by (auto simp: bm_has_bundle_def split: prod.splits)
  from mgr.get_exact [OF conjI [OF assms(1,2)] g] have "x = find_id i (bm_view E m)" by simp
  then show "r = has_id (bm_view E m) i" using r find_id_None by auto
  from mgr.get_law [OF assms(1) g] show "bm_view E m' = bm_view E m" "bm_step m m'" by simp_all
qed

lemma has_ack_exact:
  assumes "serde_laws E" and "io_ok E" and "bm_has_ack_for_data_bundle E d m = (r, m')"
  shows "r = has_ack (bm_view E m) d" and "bm_view E m' = bm_view E m" and "bm_step m m'"
proof -
  obtain bs where g: "bm_all E m = (bs, m')" and r: "r = has_ack bs d"
    using assms(3) by (auto simp: bm_has_ack_for_data_bundle_def bm_all_def split: prod.splits)
  from mgr.all_exact [OF conjI [OF assms(1,2)] g] r show "r = has_ack (bm_view E m) d" by simp
  from mgr.all_law [OF assms(1) g] show "bm_view E m' = bm_view E m" "bm_step m m'" by simp_all
qed

lemma ack_known_exact:
  assumes "serde_laws E" and "io_ok E" and "ack_known E d i m = (r, m')"
  shows "r = (has_ack (bm_view E m) d \<or> has_id (bm_view E m) i)" and "bm_view E m' = bm_view E m"
    and "bm_step m m'"
proof -
  obtain k m1 where h: "bm_has_ack_for_data_bundle E d m = (k, m1)"
    by (cases "bm_has_ack_for_data_bundle E d m")
  note h1 = has_ack_exact [OF assms(1,2) h]
  have "r = (has_ack (bm_view E m) d \<or> has_id (bm_view E m) i) \<and> bm_view E m' = bm_view E m \<and> bm_step m m'"
  proof (cases k)
    case True
    then show ?thesis using assms(3) h h1 by (simp add: ack_known_def)
  next
    case False
    with assms(3) h have g: "bm_has_bundle E i m1 = (r, m')" by (simp add: ack_known_def)
    show ?thesis
      using has_bundle_exact [OF assms(1,2) g] h1 False mgr.step_trans [OF h1(3)] by simp
  qed
  then show "r = (has_ack (bm_view E m) d \<or> has_id (bm_view E m) i)" "bm_view E m' = bm_view E m"
    "bm_step m m'" by blast+
qed

lemma settle_data_exact:
  assumes "serde_laws E" and "io_ok E" and "settle_data E d m = Some m'"
  shows "bm_view E m' = remove_id d (bm_view E m)" and "bm_step m m'"
proof -
  obtain x m1 where g: "bm_get E d m = (x, m1)" by (cases "bm_get E d m")
  from mgr.settle_exact [OF conjI [OF assms(1,2)] g, of delivered m'] assms(3)
  show "bm_view E m' = remove_id d (bm_view E m)" "bm_step m m'"
    by (simp_all add: settle_data_def g)
qed

text \<open>
  The effect of an acknowledgement on the list of stored bundles: the acknowledged bundle
  goes; the acknowledgement itself is kept when it is new and there is room for it.
\<close>

lemma handle_incoming_ack_exact:
  assumes "serde_laws E" and "io_ok E" and "b_kind ack = Ack d"
    and "handle_incoming_ack E ack m = Some (r, m')"
  defines "v \<equiv> remove_id d (bm_view E m)"
  shows "has_ack v d \<or> has_id v (b_id ack) \<Longrightarrow> \<not> r \<and> bm_view E m' = v"
    and "\<not> (has_ack v d \<or> has_id v (b_id ack)) \<Longrightarrow> \<exists>t. r = (length (unexpired E t v) < bm_cap m) \<and>
      bm_view E m' = (if r then unexpired E t v @ [ack] else unexpired E t v)"
    and "bm_step m m'"
proof -
  from assms(3,4) obtain m1 where s: "settle_data E d m = Some m1"
    by (auto simp: handle_incoming_ack_def bind_eq_Some_conv)
  obtain k m2 where a: "ack_known E d (b_id ack) m1 = (k, m2)" by (cases "ack_known E d (b_id ack) m1")
  note s1 = settle_data_exact [OF assms(1,2) s]
  note a1 = ack_known_exact [OF assms(1,2) a]
  have v2: "bm_view E m2 = v" and k: "k = (has_ack v d \<or> has_id v (b_id ack))"
    and st: "bm_step m m2"
    using s1 a1 mgr.step_trans [OF s1(2) a1(3)] by (simp_all add: v_def)
  have "(k \<longrightarrow> \<not> r \<and> bm_view E m' = v) \<and>
    (\<not> k \<longrightarrow> (\<exists>t. r = (length (unexpired E t v) < bm_cap m) \<and>
      bm_view E m' = (if r then unexpired E t v @ [ack] else unexpired E t v))) \<and> bm_step m m'"
  proof (cases k)
    case True
    then show ?thesis using assms(3,4) s a v2 st by (simp add: handle_incoming_ack_def)
  next
    case False
    with assms(3,4) s a have sv: "bm_save_bundle E ack m2 = Some (r, m')"
      by (simp add: handle_incoming_ack_def)
    obtain t where t: "store_sweep E (bm_store m2) = unexpired E t v"
      using v2 by (auto simp: store_sweep_def bm_view_def)
    have "\<not> has_id (unexpired E t v) (b_id ack)"
      using False k subseq_set [OF unexpired_subseq [of E t v]] by (auto simp: has_id_iff)
    then have ref: "refuses (unexpired E t v) (bm_cap m) ack = (\<not> length (unexpired E t v) < bm_cap m)"
      using assms(3) by (auto simp: refuses_def)
    have cap: "bm_cap m2 = bm_cap m" using st by (rule mgr.step_cap)
    have "bm_step m m'" using mgr.save_law [OF assms(1) sv] mgr.step_trans [OF st] by blast
    moreover have "r = (length (unexpired E t v) < bm_cap m)"
      "bm_view E m' = (if r then unexpired E t v @ [ack] else unexpired E t v)"
      using mgr.save_exact [OF conjI [OF assms(1,2)] sv] ref cap t by simp_all
    ultimately show ?thesis using False by blast
  qed
  then show "has_ack v d \<or> has_id v (b_id ack) \<Longrightarrow> \<not> r \<and> bm_view E m' = v"
    and "\<not> (has_ack v d \<or> has_id v (b_id ack)) \<Longrightarrow> \<exists>t. r = (length (unexpired E t v) < bm_cap m) \<and>
      bm_view E m' = (if r then unexpired E t v @ [ack] else unexpired E t v)"
    and "bm_step m m'"
    using k by blast+
qed

lemma settle_data_total: "manager_ok E m \<Longrightarrow> \<exists>m'. settle_data E d m = Some m'"
  using mgr.settle_total [unfolded mgr_ok_eq, of E m d _ _ delivered]
  by (cases "bm_get E d m") (simp add: settle_data_def)

lemma handle_incoming_ack_total:
  assumes "manager_ok E m"
  shows "handle_incoming_ack E ack m \<noteq> None"
proof (cases "is_Ack (b_kind ack)")
  case True
  then obtain d where d: "b_kind ack = Ack d" by (cases "b_kind ack") auto
  obtain m1 where s: "settle_data E d m = Some m1" using settle_data_total [OF assms] by blast
  obtain k m2 where a: "ack_known E d (b_id ack) m1 = (k, m2)" by (cases "ack_known E d (b_id ack) m1")
  have "serde_laws E" using assms by (simp add: manager_ok_def)
  then show ?thesis using d s a mgr.total(1) [of E ack m2] by (auto simp: handle_incoming_ack_def)
next
  case False
  then show ?thesis by (cases "b_kind ack") (auto simp: handle_incoming_ack_def)
qed

end
