(* ===== verification/Wire.thy ===== *)
theory Wire
  imports Sample_Env
begin

text \<open>
  \<open>network/protobuf.rs\<close>: the conversion of a bundle to and from the message of
  \<open>bundle.proto\<close>, and what survives a hop over the wire.
\<close>

section \<open>Conversions\<close>

text \<open>\<open>Vec<String>::join\<close>\<close>

fun join_strings :: "string \<Rightarrow> string list \<Rightarrow> string" where
  "join_strings sep [] = []"
| "join_strings sep [s] = s"
| "join_strings sep (s # ss) = s @ sep @ join_strings sep ss"

fun kind_to_proto :: "'v env \<Rightarrow> BundleKind \<Rightarrow> proto_kind \<times> string" where
  "kind_to_proto E (Data m) = (DATA, m)"
| "kind_to_proto E (Ack i) = (ACK, uuid_to_string E i)"
| "kind_to_proto E (RequestSV i) = (REQUESTSV, uuid_to_string E i)"
| "kind_to_proto E (SummaryVector is) =
     (SUMMARYVEC, join_strings '','' (map (uuid_to_string E) is))"

definition proto_of_bundle :: "'v env \<Rightarrow> Bundle \<Rightarrow> ProtobufBundle" where
  "proto_of_bundle E b =
     (let (kind, kind_data) = kind_to_proto E (b_kind b)
      in \<lparr>pb_id = uuid_to_string E (b_id b),
          pb_source_id = uuid_to_string E (n_id (b_source b)),
          pb_source_name = n_name (b_source b),
          pb_source_address = n_address (b_source b),
          pb_source_port = ucast (n_port (b_source b)),
          pb_source_peers = map (uuid_to_string E) (n_peers (b_source b)),
          pb_destination_id = uuid_to_string E (n_id (b_destination b)),
          pb_destination_name = n_name (b_destination b),
          pb_destination_address = n_address (b_destination b),
          pb_destination_port = ucast (n_port (b_destination b)),
          pb_destination_peers = map (uuid_to_string E) (n_peers (b_destination b)),
          pb_timestamp = timestamp_seconds E (b_timestamp b),
          pb_ttl = b_ttl b,
          pb_kind = proto_kind_num kind,
          pb_kind_data = kind_data,
          pb_shipment_status = proto_status_num PENDING\<rparr>)"

text \<open>\<open>Uuid::parse_str(s).unwrap_or_default()\<close>: the nil UUID for text that is none.\<close>

definition parse_uuid_or_nil :: "'v env \<Rightarrow> string \<Rightarrow> uuid" where
  "parse_uuid_or_nil E s = (case uuid_parse_str E s of Some u \<Rightarrow> u | None \<Rightarrow> 0)"

definition datetime_or_default :: "'v env \<Rightarrow> int \<Rightarrow> datetime" where
  "datetime_or_default E n = (case from_timestamp E n of Some t \<Rightarrow> t | None \<Rightarrow> default_datetime E)"

definition bundle_of_proto :: "'v env \<Rightarrow> ProtobufBundle \<Rightarrow> Bundle" where
  "bundle_of_proto E p =
     \<lparr>b_id = parse_uuid_or_nil E (pb_id p),
      b_source =
        \<lparr>n_id = parse_uuid_or_nil E (pb_source_id p),
         n_name = pb_source_name p,
         n_address = pb_source_address p,
         n_port = ucast (pb_source_port p),
         n_peers = map (parse_uuid_or_nil E) (pb_source_peers p)\<rparr>,
      b_destination =
        \<lparr>n_id = parse_uuid_or_nil E (pb_destination_id p),
         n_name = pb_destination_name p,
         n_address = pb_destination_address p,
         n_port = ucast (pb_destination_port p),
         n_peers = map (parse_uuid_or_nil E) (pb_destination_peers p)\<rparr>,
      b_timestamp = datetime_or_default E (pb_timestamp p),
      b_ttl = pb_ttl p,
      b_kind =
        (case proto_kind_or_default (pb_kind p) of
           ACK \<Rightarrow> Ack (parse_uuid_or_nil E (pb_kind_data p))
         | _ \<Rightarrow> Data (pb_kind_data p)),
      b_status = Pending\<rparr>"

definition serialize :: "'v env \<Rightarrow> ProtobufBundle \<Rightarrow> byte list option" where
  "serialize E p = write_to_bytes E p"

definition deserialize :: "'v env \<Rightarrow> byte list \<Rightarrow> ProtobufBundle option" where
  "deserialize E bs = parse_from_bytes E bs"

section \<open>What the conversions rely on\<close>

text \<open>
  \<open>uuid_laws\<close>: \<open>Uuid::to_string\<close> is read back by \<open>parse_str\<close>.
  \<open>chrono_laws\<close>: \<open>timestamp()\<close> of \<open>from_timestamp(s, 0)\<close> is \<open>s\<close>,
  and a \<open>DateTime\<close> has whole seconds in range.
\<close>

definition uuid_laws :: "'v env \<Rightarrow> bool" where
  "uuid_laws E \<longleftrightarrow> (\<forall>u. uuid_parse_str E (uuid_to_string E u) = Some u)"

definition chrono_laws :: "'v env \<Rightarrow> bool" where
  "chrono_laws E \<longleftrightarrow>
     (\<forall>t. \<exists>u. from_timestamp E (timestamp_seconds E t) = Some u \<and>
        timestamp_seconds E u = timestamp_seconds E t)"

lemma parse_uuid_to_string [simp]: "uuid_laws E \<Longrightarrow> parse_uuid_or_nil E (uuid_to_string E u) = u"
  by (simp add: parse_uuid_or_nil_def uuid_laws_def)

lemma parse_uuids_to_strings [simp]:
  "uuid_laws E \<Longrightarrow> map (parse_uuid_or_nil E \<circ> uuid_to_string E) is = is"
  by (rule map_idI) simp

lemma ucast_u16_u32 [simp]: "ucast (ucast (p :: u16) :: u32) = p"
  by (rule bit_word_eqI) (simp add: bit_simps)

text \<open>What a hop does to a bundle that carries data or an acknowledgement.\<close>

definition over_wire :: "'v env \<Rightarrow> Bundle \<Rightarrow> Bundle" where
  "over_wire E b = bundle_of_proto E (proto_of_bundle E b)"

definition carriable :: "Bundle \<Rightarrow> bool" where
  "carriable b \<longleftrightarrow> is_Data (b_kind b) \<or> is_Ack (b_kind b)"

lemma over_wire_eq:
  assumes "uuid_laws E" and "carriable b"
  shows "over_wire E b =
    b\<lparr>b_timestamp := datetime_or_default E (timestamp_seconds E (b_timestamp b)), b_status := Pending\<rparr>"
  using assms
  by (cases "b_kind b")
    (simp_all add: over_wire_def proto_of_bundle_def bundle_of_proto_def carriable_def
      proto_kind_or_default_def)

lemma received_carriable: "carriable (bundle_of_proto E p)"
  by (simp add: bundle_of_proto_def carriable_def split: proto_kind.splits)

lemma over_wire_id: "uuid_laws E \<Longrightarrow> b_id (over_wire E b) = b_id b"
  by (simp add: over_wire_def proto_of_bundle_def bundle_of_proto_def split: prod.splits)

lemma over_wire_source: "uuid_laws E \<Longrightarrow> b_source (over_wire E b) = b_source b"
  by (simp add: over_wire_def proto_of_bundle_def bundle_of_proto_def split: prod.splits)

lemma over_wire_destination: "uuid_laws E \<Longrightarrow> b_destination (over_wire E b) = b_destination b"
  by (simp add: over_wire_def proto_of_bundle_def bundle_of_proto_def split: prod.splits)

lemma over_wire_ack_iff: "uuid_laws E \<Longrightarrow> b_kind (over_wire E b) = Ack d \<longleftrightarrow> b_kind b = Ack d"
  by (cases "b_kind b")
    (simp_all add: over_wire_def proto_of_bundle_def bundle_of_proto_def proto_kind_or_default_def)

text \<open>The sample environment satisfies the laws.\<close>

lemma sample_parse_text: "sample_parse_uuid (text_of [n]) = Some (of_nat n)"
proof -
  have "set (text_of [n]) \<subseteq> {CHR ''1'', CHR ''0''}" by (auto simp: text_of_def)
  moreover have "CHR ''6'' \<in> set namespace_text" by (simp add: namespace_text_def)
  ultimately have "text_of [n] \<noteq> namespace_text" by auto
  then show ?thesis by (simp add: sample_parse_uuid_def)
qed

lemma sample_uuid_laws: "uuid_laws sample_env"
  by (simp add: uuid_laws_def sample_env_def sample_parse_text)

lemma sample_chrono_laws: "chrono_laws sample_env"
  by (simp add: chrono_laws_def sample_env_def)

end
