(* ===== verification/Network_Client.thy ===== *)
theory Network_Client
  imports Wire
begin

text \<open>
  \<open>network/client.rs\<close>, the part that does not touch the routing engine: connecting with
  retries, the registry requests, sending and receiving a bundle, and asking a peer for its
  summary vector. The receiving loop of a node is in theory \<open>Peer_Loop\<close>.
\<close>

section \<open>Connecting\<close>

text \<open>
  The loop \<open>for attempt in 1..=max_retries\<close>, by recursion on the attempts to come. A
  connection carries the bytes the peer will send on it.
\<close>

fun connect_attempts ::
    "'v env \<Rightarrow> string \<Rightarrow> nat \<Rightarrow> nat \<Rightarrow> nat list \<Rightarrow> world \<Rightarrow> stream option \<times> world" where
  "connect_attempts E address max_retries delay_secs [] W = (None, W)"
| "connect_attempts E address max_retries delay_secs (attempt # attempts) W =
     (if tcp_connect E (tick W) address
      then (Some \<lparr>s_addr = address, s_in = tcp_incoming E (tick W) address\<rparr>, tock W)
      else
        (let W = tock W;
             W = (if attempt < max_retries then W\<lparr>slept := slept W + delay_secs\<rparr> else W)
         in connect_attempts E address max_retries delay_secs attempts W))"

definition connect_with_retry ::
    "'v env \<Rightarrow> string \<Rightarrow> nat \<Rightarrow> nat \<Rightarrow> world \<Rightarrow> stream option \<times> world" where
  "connect_with_retry E address max_retries delay_secs W =
     connect_attempts E address max_retries delay_secs [1..<Suc max_retries] W"

definition connect_to_peer :: "'v env \<Rightarrow> uuid \<Rightarrow> string \<Rightarrow> world \<Rightarrow> stream option \<times> world" where
  "connect_to_peer E source_id destination W = connect_with_retry E destination 3 2 W"

section \<open>The registry requests\<close>

text \<open>
  Registering a node: the answer is read and ignored. The stream stays open and is the result.
\<close>

definition connect_to_server :: "'v env \<Rightarrow> Node \<Rightarrow> string \<Rightarrow> world \<Rightarrow> stream option \<times> world" where
  "connect_to_server E node server_addr W =
     (let (c, W) = connect_with_retry E server_addr 3 2 W
      in case c of
           None \<Rightarrow> (None, W)
         | Some stream \<Rightarrow>
             (let message = (case request_to_vec E (Register node) of Some m \<Rightarrow> m | None \<Rightarrow> []);
                  (ok, W) = stream_write_all E stream message W
              in if \<not> ok then (None, W)
                 else
                   (let (_, stream, W) = stream_read E 1024 stream W
                    in (Some stream, W))))"

definition get_connected_peers_from_server ::
    "'v env \<Rightarrow> string \<Rightarrow> uuid list \<Rightarrow> world \<Rightarrow> PeerRecord list \<times> world" where
  "get_connected_peers_from_server E server_addr requested_ids W =
     (let (c, W) = connect_with_retry E server_addr 3 2 W
      in case c of
           None \<Rightarrow> ([], W)
         | Some stream \<Rightarrow>
             (let msg = (case request_to_vec E (GetConnectedPeers requested_ids) of
                           Some m \<Rightarrow> m | None \<Rightarrow> []);
                  (ok, W) = stream_write_all E stream msg W
              in if \<not> ok then ([], W)
                 else
                   (let (r, stream, W) = stream_read E 16384 stream W
                    in case r of
                         None \<Rightarrow> ([], W)
                       | Some bs \<Rightarrow>
                           (case response_from_slice E bs of
                              Some (Peers peers) \<Rightarrow> (peers, W)
                            | _ \<Rightarrow> ([], W)))))"

section \<open>Sending and receiving a bundle\<close>

definition length_prefix :: "byte list \<Rightarrow> byte list" where
  "length_prefix payload = to_be_bytes (of_nat (length payload))"

definition send_bundle :: "'v env \<Rightarrow> uuid \<Rightarrow> Bundle \<Rightarrow> string \<Rightarrow> world \<Rightarrow> bool \<times> world" where
  "send_bundle E source_id b destination W =
     (case serialize E (proto_of_bundle E b) of
        None \<Rightarrow> (False, W)
      | Some payload \<Rightarrow>
          (let (c, W) = connect_to_peer E source_id destination W
           in case c of
                None \<Rightarrow> (False, W)
              | Some stream \<Rightarrow>
                  (let (ok, W) = stream_write_all E stream (length_prefix payload) W;
                       (ok, W) = (if ok then stream_write_all E stream payload W else (False, W))
                   in if \<not> ok then (False, W)
                      else
                        (let W = W\<lparr>frames := frames W @ [(destination, b)]\<rparr>;
                             (ack, stream, W) = stream_read_exact E 4 stream W
                         in if ack = None then (False, W)
                            else (True, W\<lparr>answered := answered W @ [(destination, b)]\<rparr>)))))"

definition ack_bytes :: "byte list" where
  "ack_bytes = [0x61, 0x63, 0x6b, 0x0a]" \<comment> \<open>\<open>b"ack\n"\<close>\<close>

definition receive_bundle :: "'v env \<Rightarrow> stream \<Rightarrow> world \<Rightarrow> Bundle option \<times> stream \<times> world" where
  "receive_bundle E stream W =
     (let (len_buf, stream, W) = stream_read_exact E 4 stream W
      in case len_buf of
           None \<Rightarrow> (None, stream, W)
         | Some bs \<Rightarrow>
             (let len = unat (from_be_bytes bs);
                  (payload, stream, W) = stream_read_exact E len stream W
              in case payload of
                   None \<Rightarrow> (None, stream, W)
                 | Some ps \<Rightarrow>
                     (case deserialize E ps of
                        None \<Rightarrow> (None, stream, W)
                      | Some p \<Rightarrow>
                          (let (_, W) = stream_write_all E stream ack_bytes W
                           in (Some (bundle_of_proto E p), stream, W)))))"

section \<open>Asking a peer for its summary vector\<close>

text \<open>\<open>None\<close> is \<open>Err(..)\<close>; its text is only printed by the caller.\<close>

definition request_peer_sv ::
    "'v env \<Rightarrow> uuid \<Rightarrow> string \<Rightarrow> world \<Rightarrow> uuid list option \<times> world" where
  "request_peer_sv E self_id destination W =
     (let (c, W) = connect_with_retry E destination 3 2 W
      in case c of
           None \<Rightarrow> (None, W)
         | Some stream \<Rightarrow>
             (case kind_to_vec E (RequestSV self_id) of
                None \<Rightarrow> (None, W)
              | Some payload \<Rightarrow>
                  (let (ok, W) = stream_write_all E stream payload W
                   in if \<not> ok then (None, W)
                      else
                        (let (len_buf, stream, W) = stream_read_exact E 4 stream W
                         in case len_buf of
                              None \<Rightarrow> (None, W)
                            | Some bs \<Rightarrow>
                                (let (buffer, stream, W) =
                                   stream_read_exact E (unat (from_be_bytes bs)) stream W
                                 in case buffer of
                                      None \<Rightarrow> (None, W)
                                    | Some js \<Rightarrow>
                                        (case kind_from_slice E js of
                                           Some (SummaryVector is) \<Rightarrow> (Some is, W)
                                         | _ \<Rightarrow> (None, W)))))))"

section \<open>What the network operations leave alone\<close>

text \<open>
  \<open>net_step B W W'\<close>: files are untouched, the clock moves on, and every frame written
  or answered on the way carries a bundle of \<open>B\<close>.
\<close>

definition grows :: "Bundle set \<Rightarrow> (string \<times> Bundle) list \<Rightarrow> (string \<times> Bundle) list \<Rightarrow> bool" where
  "grows B xs ys \<longleftrightarrow> (\<exists>zs. ys = xs @ zs \<and> snd ` set zs \<subseteq> B)"

lemma grows_refl [simp]: "grows B xs xs"
  by (simp add: grows_def)

lemma grows_one [simp]: "grows B xs (xs @ [(a, b)]) \<longleftrightarrow> b \<in> B"
  by (simp add: grows_def)

lemma grows_trans: "grows B xs ys \<Longrightarrow> grows C ys zs \<Longrightarrow> grows (B \<union> C) xs zs"
  unfolding grows_def by (auto 0 3)

lemma grows_mono: "grows B xs ys \<Longrightarrow> B \<subseteq> C \<Longrightarrow> grows C xs ys"
  unfolding grows_def by blast

lemma grows_none [simp]: "grows {} xs ys \<longleftrightarrow> ys = xs"
  by (auto simp: grows_def)

definition net_step :: "Bundle set \<Rightarrow> world \<Rightarrow> world \<Rightarrow> bool" where
  "net_step B W W' \<longleftrightarrow>
     disk W' = disk W \<and> dirs W' = dirs W \<and> tick W \<le> tick W' \<and>
     (\<exists>fs. frames W' = frames W @ fs \<and> snd ` set fs \<subseteq> B) \<and> grows B (answered W) (answered W')"

lemma net_step_refl [simp]: "net_step B W W"
  by (simp add: net_step_def)

lemma net_step_trans:
  assumes "net_step B W W'" and "net_step C W' W''"
  shows "net_step (B \<union> C) W W''"
proof -
  have "grows (B \<union> C) (frames W) (frames W'')" "grows (B \<union> C) (answered W) (answered W'')"
    using assms by (auto simp: net_step_def grows_def [symmetric] intro: grows_trans)
  then show ?thesis using assms by (simp add: net_step_def grows_def [symmetric])
qed

lemma net_step_trans_same [trans]: "net_step B W W' \<Longrightarrow> net_step B W' W'' \<Longrightarrow> net_step B W W''"
  using net_step_trans [of B W W' B W''] by simp

lemma net_step_mono: "net_step B W W' \<Longrightarrow> B \<subseteq> C \<Longrightarrow> net_step C W W'"
  by (auto simp: net_step_def grows_def)

lemma net_step_tock [simp]: "net_step B W (tock W)"
  by (simp add: net_step_def)

lemma later_net_step: "later W W' \<Longrightarrow> net_step B W W'"
  by (auto simp: net_step_def later_fields) (simp add: later_def)

lemma write_net_step: "net_step B W (snd (stream_write_all E S bs W))"
  by (simp add: stream_write_all_def net_step_def split: option.splits)

lemma read_net_step: "net_step B W (snd (snd (stream_read E n S W)))"
  by (simp add: stream_read_def Let_def)

lemma read_exact_net_step: "net_step B W (snd (snd (stream_read_exact E n S W)))"
  by (simp add: stream_read_exact_def)

lemma connect_attempts_net_step:
  "net_step B W (snd (connect_attempts E a k d ns W))"
proof (induction ns arbitrary: W)
  case Nil
  then show ?case by simp
next
  case (Cons n ns)
  let ?V = "if n < k then (tock W)\<lparr>slept := slept (tock W) + d\<rparr> else tock W"
  have "net_step B W ?V" by (simp add: net_step_def)
  from net_step_trans_same [OF this Cons.IH] show ?case by (simp add: Let_def)
qed

lemma connect_net_step: "net_step B W (snd (connect_with_retry E a k d W))"
  unfolding connect_with_retry_def by (rule connect_attempts_net_step)

text \<open>The same facts for a call whose result is named.\<close>

lemma net_steps:
  "stream_write_all E S bs W = (ok, W') \<Longrightarrow> net_step B W W'"
  "stream_read E n S W = (r, S', W') \<Longrightarrow> net_step B W W'"
  "stream_read_exact E n S W = (r, S', W') \<Longrightarrow> net_step B W W'"
  "connect_with_retry E a k d W = (c, W') \<Longrightarrow> net_step B W W'"
  using write_net_step [of B W E S bs] read_net_step [of B W E n S] read_exact_net_step [of B W E n S]
    connect_net_step [of B W E a k d] by simp_all

lemma request_peer_sv_net_step: "request_peer_sv E i a W = (r, W') \<Longrightarrow> net_step B W W'"
  unfolding request_peer_sv_def Let_def
  by (auto split: prod.splits option.splits BundleKind.splits if_splits
      dest!: net_steps(1,3,4) [where B = B] intro: net_step_trans_same)

lemma get_connected_net_step: "get_connected_peers_from_server E a qs W = (r, W') \<Longrightarrow> net_step B W W'"
  unfolding get_connected_peers_from_server_def Let_def
  by (auto split: prod.splits option.splits ServerResponse.splits if_splits
      dest!: net_steps(1,2,4) [where B = B] intro: net_step_trans_same)

lemma net_step_frame:
  "net_step B W V \<Longrightarrow> net_step B (V\<lparr>frames := frames V @ [(a, b)]\<rparr>) W' \<Longrightarrow> b \<in> B \<Longrightarrow> net_step B W W'"
  by (rule net_step_trans_same [of B W "V\<lparr>frames := frames V @ [(a, b)]\<rparr>"]) (auto simp: net_step_def)

lemma net_step_taken: "net_step B W V \<Longrightarrow> b \<in> B \<Longrightarrow> net_step B W (V\<lparr>answered := answered V @ [(a, b)]\<rparr>)"
  by (rule net_step_trans_same [of B W V]) (auto simp: net_step_def)

lemma send_bundle_net_step: "send_bundle E i b a W = (r, W') \<Longrightarrow> net_step {b} W W'"
  unfolding send_bundle_def connect_to_peer_def Let_def
  by (auto split: prod.splits option.splits if_splits
      dest!: net_steps(1,3,4) [where B = "{b}"] intro: net_step_trans_same net_step_frame net_step_taken)

end
