(* ===== verification/Registry.thy ===== *)
theory Registry
  imports Sample_Env
begin

text \<open>
  \<open>network/server.rs\<close>: the registry of peers. \<open>serve\<close> is one iteration of the
  loop of \<open>handle_client\<close> after a read, \<open>close_session\<close> what follows the loop;
  \<open>handle_client\<close> is the whole loop over one connection, and \<open>server_step\<close> the
  server with any number of client threads, whose critical sections on the mutex interleave.

  \<open>println!\<close> and \<open>eprintln!\<close> panic when they cannot write. Under the lock of the
  registry such a panic ends the thread and poisons the mutex for all others; the operations
  that print there take whether what they print is written, or read it off \<open>console\<close>.
\<close>

section \<open>State\<close>

text \<open>
  \<open>Arc<Mutex<Vec<PeerRecord>>>\<close>: the records, and whether a panic has poisoned the mutex.
\<close>

record Server =
  peer_registry :: "PeerRecord list"
  poisoned :: bool

definition server_new :: Server where
  "server_new = \<lparr>peer_registry = [], poisoned = False\<rparr>"

definition has_node_id :: "uuid \<Rightarrow> PeerRecord \<Rightarrow> bool" where
  "has_node_id i r \<longleftrightarrow> n_id (p_node r) = i"

section \<open>The operations under the lock\<close>

definition register_node :: "Node \<Rightarrow> PeerRecord list \<Rightarrow> PeerRecord list" where
  "register_node node rs =
     (if find (has_node_id (n_id node)) rs \<noteq> None
      then update_first (has_node_id (n_id node)) (\<lambda>r. r\<lparr>p_node := node, p_status := Connected\<rparr>) rs
      else rs @ [\<lparr>p_node = node, p_status = Connected\<rparr>])"

definition mark_disconnected :: "uuid \<Rightarrow> PeerRecord list \<Rightarrow> PeerRecord list" where
  "mark_disconnected i rs = update_first (has_node_id i) (\<lambda>r. r\<lparr>p_status := Disconnected\<rparr>) rs"

definition get_connected_peers :: "Server \<Rightarrow> uuid list \<Rightarrow> PeerRecord list" where
  "get_connected_peers S requested_ids =
     (if poisoned S then []
      else filter (\<lambda>r. p_status r = Connected \<and>
             (requested_ids = [] \<or> n_id (p_node r) \<in> set requested_ids)) (peer_registry S))"

text \<open>
  \<open>disconnect_server\<close>: the registry it leaves when it exits the process or a print fails.
  \<open>mark_all\<close> is its critical section: a print for every record marked and one after the last.
\<close>

fun mark_all :: "'v env \<Rightarrow> PeerRecord list \<Rightarrow> world \<Rightarrow> bool \<times> PeerRecord list \<times> world" where
  "mark_all E [] W = (console E (tick W), [], tock W)"
| "mark_all E (r # rs) W =
     (if console E (tick W)
      then let (printed, rs, W) = mark_all E rs (tock W) in (printed, r\<lparr>p_status := Disconnected\<rparr> # rs, W)
      else (False, r\<lparr>p_status := Disconnected\<rparr> # rs, tock W))"

definition disconnect_server :: "'v env \<Rightarrow> Server \<Rightarrow> world \<Rightarrow> Server \<times> world" where
  "disconnect_server E S W =
     (if poisoned S then (S, W)
      else let (printed, rs, W) = mark_all E (peer_registry S) W
           in (S\<lparr>peer_registry := rs, poisoned := \<not> printed\<rparr>, W))"

definition verify_unique_name :: "Server \<Rightarrow> string \<Rightarrow> bool" where
  "verify_unique_name S name =
     (if poisoned S then False
      else \<not> list_ex (\<lambda>r. n_name (p_node r) = name) (peer_registry S))"

section \<open>One request of a client\<close>

text \<open>
  \<open>printed\<close>: whether the records \<open>Register\<close> lists under the lock are written. If not, the
  thread panics there, without an answer (\<open>None\<close>), and the mutex is poisoned.
\<close>

definition handle_request ::
    "bool \<Rightarrow> ServerRequest \<Rightarrow> uuid option \<Rightarrow> Server \<Rightarrow> ServerResponse option \<times> uuid option \<times> Server" where
  "handle_request printed req sid S =
     (case req of
        Register node \<Rightarrow>
          if poisoned S then (Some (Error ''Registry lock poisoned''), Some (n_id node), S)
          else
            let S = S\<lparr>peer_registry := register_node node (peer_registry S)\<rparr>
            in if printed then (Some Ok, Some (n_id node), S)
               else (None, Some (n_id node), S\<lparr>poisoned := True\<rparr>)
      | GetConnectedPeers requested_ids \<Rightarrow> (Some (Peers (get_connected_peers S requested_ids)), sid, S))"

definition serve ::
    "'v env \<Rightarrow> byte list \<Rightarrow> uuid option \<Rightarrow> Server \<Rightarrow> world \<Rightarrow>
     ServerResponse option \<times> uuid option \<times> Server \<times> world" where
  "serve E bs sid S W =
     (case request_from_slice E bs of
        None \<Rightarrow> (Some (Error (''Invalid request JSON: '' @ request_error_text E bs)), sid, S, W)
      | Some req \<Rightarrow>
          let (response, sid, S) = handle_request (console E (tick W)) req sid S
          in (response, sid, S, tock W))"

text \<open>\<open>printed\<close>: whether the line on the record that was found and marked is written.\<close>

definition close_session :: "bool \<Rightarrow> uuid option \<Rightarrow> Server \<Rightarrow> Server" where
  "close_session printed sid S =
     (case sid of
        None \<Rightarrow> S
      | Some i \<Rightarrow>
          if poisoned S then S
          else if find (has_node_id i) (peer_registry S) = None then S
          else S\<lparr>peer_registry := mark_disconnected i (peer_registry S), poisoned := \<not> printed\<rparr>)"

definition write_json :: "'v env \<Rightarrow> stream \<Rightarrow> ServerResponse \<Rightarrow> world \<Rightarrow> bool \<times> world" where
  "write_json E stream response W =
     (case response_to_vec E response of
        None \<Rightarrow> (False, W)
      | Some body \<Rightarrow> stream_write_all E stream body W)"

section \<open>The loop over one connection\<close>

lemma stream_read_shorter:
  assumes "stream_read E n S W = (Some bs, S', W')" and "bs \<noteq> []"
  shows "length (s_in S') < length (s_in S)"
  using assms by (auto simp: stream_read_def Let_def split: if_splits)

text \<open>The \<open>node_id\<close> variable at the end of the loop, or \<open>None\<close> if the thread has panicked.\<close>

function client_loop ::
    "'v env \<Rightarrow> uuid option \<Rightarrow> stream \<Rightarrow> Server \<Rightarrow> world \<Rightarrow> uuid option option \<times> Server \<times> world" where
  "client_loop E sid stream S W =
     (case stream_read E 4096 stream W of
        (None, stream', W) \<Rightarrow> (Some sid, S, W)
      | (Some bs, stream', W) \<Rightarrow>
          if bs = [] then (Some sid, S, W)
          else
            (case serve E bs sid S W of
               (None, sid, S, W) \<Rightarrow> (None, S, W)
             | (Some response, sid, S, W) \<Rightarrow>
                 let (_, W) = write_json E stream' response W
                 in client_loop E sid stream' S W))"
  by pat_completeness auto
termination
  by (relation "measure (\<lambda>(E, sid, stream, S, W). length (s_in stream))")
    (auto dest: stream_read_shorter [OF sym])

declare client_loop.simps [simp del]

definition handle_client :: "'v env \<Rightarrow> stream \<Rightarrow> Server \<Rightarrow> world \<Rightarrow> Server \<times> world" where
  "handle_client E stream S W =
     (case client_loop E None stream S W of
        (None, S, W) \<Rightarrow> (S, W)
      | (Some sid, S, W) \<Rightarrow> (close_session (console E (tick W)) sid S, tock W))"

section \<open>The server with its client threads\<close>

text \<open>
  \<open>sessions c\<close> is \<open>None\<close> when there is no open connection \<open>c\<close>, else the
  \<open>node_id\<close> variable of its thread. \<open>RequestPanic\<close> and \<open>ClosePanic\<close> are the
  critical sections in which a print fails: the thread ends and its connection is dropped.
\<close>

record server_state =
  registry :: Server
  sessions :: "nat \<Rightarrow> uuid option option"

definition server_init :: server_state where
  "server_init = \<lparr>registry = server_new, sessions = Map.empty\<rparr>"

datatype server_event =
    Accept nat
  | Request nat ServerRequest
  | Garbage nat
  | Close nat
  | RequestPanic nat ServerRequest
  | ClosePanic nat

inductive server_step :: "server_state \<Rightarrow> server_event \<Rightarrow> server_state \<Rightarrow> bool" where
  accept: "sessions s c = None \<Longrightarrow>
    server_step s (Accept c) (s\<lparr>sessions := (sessions s)(c \<mapsto> None)\<rparr>)"
| request: "sessions s c = Some sid \<Longrightarrow> handle_request True req sid (registry s) = (resp, sid', S') \<Longrightarrow>
    server_step s (Request c req) (s\<lparr>registry := S', sessions := (sessions s)(c \<mapsto> sid')\<rparr>)"
| garbage: "sessions s c = Some sid \<Longrightarrow> server_step s (Garbage c) s"
| close: "sessions s c = Some sid \<Longrightarrow>
    server_step s (Close c)
      (s\<lparr>registry := close_session True sid (registry s), sessions := (sessions s)(c := None)\<rparr>)"
| request_panic: "sessions s c = Some sid \<Longrightarrow> handle_request False req sid (registry s) = (None, sid', S') \<Longrightarrow>
    server_step s (RequestPanic c req) (s\<lparr>registry := S', sessions := (sessions s)(c := None)\<rparr>)"
| close_panic: "sessions s c = Some sid \<Longrightarrow> \<not> poisoned (registry s) \<Longrightarrow>
    poisoned (close_session False sid (registry s)) \<Longrightarrow>
    server_step s (ClosePanic c)
      (s\<lparr>registry := close_session False sid (registry s), sessions := (sessions s)(c := None)\<rparr>)"

inductive_cases acceptE: "server_step s (Accept c) t"
inductive_cases requestE: "server_step s (Request c req) t"
inductive_cases closeE: "server_step s (Close c) t"

inductive server_run :: "server_state \<Rightarrow> server_event list \<Rightarrow> server_state \<Rightarrow> bool" where
  run_nil: "server_run s [] s"
| run_snoc: "server_run s es t \<Longrightarrow> server_step t e u \<Longrightarrow> server_run s (es @ [e]) u"

section \<open>Lemmas on the records\<close>

abbreviation node_ids :: "PeerRecord list \<Rightarrow> uuid list" where
  "node_ids \<equiv> map (\<lambda>r. n_id (p_node r))"

lemma record_eta [simp]: "(r :: PeerRecord)\<lparr>p_node := n, p_status := c\<rparr> = \<lparr>p_node = n, p_status = c\<rparr>"
  by (cases r) simp

lemma node_ids_mark [simp]: "node_ids (mark_disconnected i rs) = node_ids rs"
  unfolding mark_disconnected_def by (rule map_update_first) simp

lemma node_ids_register:
  "node_ids (register_node n rs) =
     (if n_id n \<in> set (node_ids rs) then node_ids rs else node_ids rs @ [n_id n])"
proof -
  have "node_ids (update_first (has_node_id (n_id n)) (\<lambda>r. r\<lparr>p_node := n, p_status := Connected\<rparr>) rs) =
      node_ids rs"
    by (rule map_update_first) (simp add: has_node_id_def)
  moreover have "find (has_node_id (n_id n)) rs = None \<longleftrightarrow> n_id n \<notin> set (node_ids rs)"
    by (simp add: find_None_iff_all has_node_id_def image_iff) metis
  ultimately show ?thesis by (simp add: register_node_def)
qed

lemma register_distinct: "distinct (node_ids rs) \<Longrightarrow> distinct (node_ids (register_node n rs))"
  by (simp add: node_ids_register)

lemma node_id_inj:
  "distinct (node_ids rs) \<Longrightarrow> r \<in> set rs \<Longrightarrow> r' \<in> set rs \<Longrightarrow>
   n_id (p_node r) = n_id (p_node r') \<Longrightarrow> r = r'"
  using find_key_eq [of "\<lambda>r. n_id (p_node r)" rs] by (metis option.inject)

lemma mark_not_connected:
  assumes "distinct (node_ids rs)" and "r \<in> set (mark_disconnected i rs)" and "n_id (p_node r) = i"
  shows "p_status r = Disconnected"
proof -
  have "i \<in> set (node_ids (mark_disconnected i rs))"
    using assms(2,3) by (metis image_eqI list.set_map)
  then obtain y where "y \<in> set rs" "has_node_id i y" unfolding node_ids_mark by (auto simp: has_node_id_def)
  then obtain x where x: "find (has_node_id i) rs = Some x" by (metis find_None_iff_all not_Some_eq)
  have "x\<lparr>p_status := Disconnected\<rparr> \<in> set (mark_disconnected i rs)"
    unfolding mark_disconnected_def by (rule update_first_hit [OF x])
  moreover have "n_id (p_node (x\<lparr>p_status := Disconnected\<rparr>)) = i"
    using find_SomeD [OF x] by (simp add: has_node_id_def)
  ultimately have "r = x\<lparr>p_status := Disconnected\<rparr>"
    using node_id_inj [of "mark_disconnected i rs"] assms by simp
  then show ?thesis by simp
qed

lemma mark_other:
  "r \<in> set (mark_disconnected i rs) \<Longrightarrow> n_id (p_node r) \<noteq> i \<Longrightarrow> r \<in> set rs"
  using set_update_first_subset [of "has_node_id i" "\<lambda>r. r\<lparr>p_status := Disconnected\<rparr>" rs]
  by (auto simp: mark_disconnected_def has_node_id_def)

lemma register_other:
  "r \<in> set (register_node n rs) \<Longrightarrow> n_id (p_node r) \<noteq> n_id n \<Longrightarrow> r \<in> set rs"
  using set_update_first_subset [of "has_node_id (n_id n)" "\<lambda>r. r\<lparr>p_node := n, p_status := Connected\<rparr>" rs]
  by (auto simp: register_node_def has_node_id_def split: if_splits)

lemma register_own:
  assumes "distinct (node_ids rs)" and "r \<in> set (register_node n rs)" and "n_id (p_node r) = n_id n"
  shows "r = \<lparr>p_node = n, p_status = Connected\<rparr>"
proof -
  have "\<lparr>p_node = n, p_status = Connected\<rparr> \<in> set (register_node n rs)"
  proof (cases "find (has_node_id (n_id n)) rs")
    case (Some x)
    then show ?thesis
      using update_first_hit [OF Some, of "\<lambda>r. r\<lparr>p_node := n, p_status := Connected\<rparr>"]
      by (simp add: register_node_def)
  qed (simp add: register_node_def)
  then show ?thesis
    using node_id_inj [OF register_distinct [OF assms(1)] assms(2)] assms(3) by simp
qed

section \<open>Lemmas on the operations\<close>

lemma mark_absent: "find (has_node_id i) rs = None \<Longrightarrow> mark_disconnected i rs = rs"
  unfolding mark_disconnected_def by (rule update_first_none) (simp add: find_None_iff_all)

lemma close_session_printed:
  "close_session True sid S =
     (case sid of
        None \<Rightarrow> S
      | Some i \<Rightarrow> if poisoned S then S else S\<lparr>peer_registry := mark_disconnected i (peer_registry S)\<rparr>)"
  by (simp add: close_session_def mark_absent split: option.splits)

lemma handle_request_answered:
  "handle_request printed req sid S = (Some response, sid', S') \<Longrightarrow>
   handle_request True req sid S = (Some response, sid', S')"
  by (auto simp: handle_request_def Let_def split: ServerRequest.splits if_splits)

lemma handle_request_panic:
  assumes "handle_request printed req sid S = (None, sid', S')"
  shows "\<not> printed" "handle_request False req sid S = (None, sid', S')"
  using assms by (auto simp: handle_request_def Let_def split: ServerRequest.splits if_splits)

lemma handle_request_poisoned:
  "handle_request printed req sid S = (resp, sid', S') \<Longrightarrow> poisoned S' \<longleftrightarrow> poisoned S \<or> resp = None"
  by (auto simp: handle_request_def Let_def split: ServerRequest.splits if_splits)

lemma handle_request_True: "handle_request True req sid S = (resp, sid', S') \<Longrightarrow> resp \<noteq> None"
  by (cases resp) (auto dest: handle_request_panic(1))

lemma close_session_frozen: "poisoned S \<Longrightarrow> close_session printed sid S = S"
  by (simp add: close_session_def split: option.splits)

lemma handle_request_frozen:
  "poisoned S \<Longrightarrow> handle_request printed req sid S = (resp, sid', S') \<Longrightarrow> S' = S"
  by (auto simp: handle_request_def split: ServerRequest.splits)

lemma close_session_not_poisoned: "poisoned (close_session True sid S) \<longleftrightarrow> poisoned S"
  by (simp add: close_session_printed split: option.splits)

section \<open>Invariants of a running server\<close>

definition registry_ok :: "Server \<Rightarrow> bool" where
  "registry_ok S \<longleftrightarrow> \<not> poisoned S \<and> distinct (node_ids (peer_registry S))"

fun panics :: "server_event \<Rightarrow> bool" where
  "panics (RequestPanic c req) = True"
| "panics (ClosePanic c) = True"
| "panics _ = False"

lemma distinct_request:
  "handle_request printed req sid S = (resp, sid', S') \<Longrightarrow> distinct (node_ids (peer_registry S)) \<Longrightarrow>
   distinct (node_ids (peer_registry S'))"
  by (auto simp: handle_request_def Let_def register_distinct split: ServerRequest.splits if_splits)

lemma distinct_close:
  "distinct (node_ids (peer_registry S)) \<Longrightarrow> distinct (node_ids (peer_registry (close_session printed sid S)))"
  by (simp add: close_session_def split: option.splits)

lemma server_step_distinct:
  "server_step s e t \<Longrightarrow> distinct (node_ids (peer_registry (registry s))) \<Longrightarrow>
   distinct (node_ids (peer_registry (registry t)))"
  by (induction rule: server_step.induct) (simp_all add: distinct_request distinct_close)

lemma server_run_distinct:
  "server_run s es t \<Longrightarrow> distinct (node_ids (peer_registry (registry s))) \<Longrightarrow>
   distinct (node_ids (peer_registry (registry t)))"
  by (induction rule: server_run.induct) (simp_all add: server_step_distinct)

lemma server_step_poisoned:
  "server_step s e t \<Longrightarrow> poisoned (registry t) \<longleftrightarrow> poisoned (registry s) \<or> panics e"
proof (induction rule: server_step.induct)
  case (request s c sid req resp sid' S')
  then show ?case using handle_request_poisoned handle_request_True by simp blast
next
  case (request_panic s c sid req sid' S')
  then show ?case using handle_request_poisoned by simp
qed (simp_all add: close_session_not_poisoned)

lemma server_run_poisoned:
  "server_run s es t \<Longrightarrow> poisoned (registry t) \<longleftrightarrow> poisoned (registry s) \<or> (\<exists>e \<in> set es. panics e)"
  by (induction rule: server_run.induct) (auto simp: server_step_poisoned)

lemma server_step_frozen: "server_step s e t \<Longrightarrow> poisoned (registry s) \<Longrightarrow> registry t = registry s"
  by (induction rule: server_step.induct) (simp_all add: handle_request_frozen close_session_frozen)

lemma server_run_frozen: "server_run s es t \<Longrightarrow> poisoned (registry s) \<Longrightarrow> registry t = registry s"
  by (induction rule: server_run.induct) (simp_all add: server_step_frozen)

text \<open>Every connection registers at most one node.\<close>

definition one_identity :: "server_event list \<Rightarrow> bool" where
  "one_identity es \<longleftrightarrow>
     (\<forall>c n n'. Request c (Register n) \<in> set es \<longrightarrow> Request c (Register n') \<in> set es \<longrightarrow> n_id n = n_id n')"

lemma one_identityD:
  "one_identity es \<Longrightarrow> Request c (Register n) \<in> set es \<Longrightarrow> Request c (Register n') \<in> set es \<Longrightarrow>
   n_id n = n_id n'"
  unfolding one_identity_def by blast

definition sessions_justified :: "server_event list \<Rightarrow> server_state \<Rightarrow> bool" where
  "sessions_justified es s \<longleftrightarrow>
     (\<forall>c i. sessions s c = Some (Some i) \<longrightarrow> (\<exists>n. Request c (Register n) \<in> set es \<and> n_id n = i))"

definition connected_alive :: "server_state \<Rightarrow> bool" where
  "connected_alive s \<longleftrightarrow>
     (\<forall>r \<in> set (peer_registry (registry s)). p_status r = Connected \<longrightarrow>
        (\<exists>c. sessions s c = Some (Some (n_id (p_node r)))))"

lemma step_sessions_justified:
  "server_step s e t \<Longrightarrow> sessions_justified es s \<Longrightarrow> sessions_justified (es @ [e]) t"
  by (induction rule: server_step.induct)
    (auto simp: sessions_justified_def handle_request_def split: ServerRequest.splits if_splits)

lemma connected_alive_accept:
  assumes "connected_alive s" and "sessions s c = None"
  shows "connected_alive (s\<lparr>sessions := (sessions s)(c \<mapsto> None)\<rparr>)"
  using assms unfolding connected_alive_def by simp (metis option.distinct(1))

lemma connected_alive_request:
  assumes alive: "connected_alive s" and ok: "registry_ok (registry s)"
    and sid: "sessions s c = Some sid" and h: "handle_request True req sid (registry s) = (resp, sid', S')"
    and one: "\<And>i n. sid = Some i \<Longrightarrow> req = Register n \<Longrightarrow> n_id n = i"
  shows "connected_alive (s\<lparr>registry := S', sessions := (sessions s)(c \<mapsto> sid')\<rparr>)"
proof (cases req)
  case (GetConnectedPeers qs)
  with h have "sid' = sid" "S' = registry s" by (simp_all add: handle_request_def)
  moreover have "(sessions s)(c \<mapsto> sid) = sessions s" using sid by (rule fun_upd_idem)
  ultimately show ?thesis using alive by simp
next
  case (Register n)
  with h ok have h': "sid' = Some (n_id n)"
      "peer_registry S' = register_node n (peer_registry (registry s))"
    by (auto simp: handle_request_def registry_ok_def)
  show ?thesis
    unfolding connected_alive_def
  proof (intro ballI impI)
    fix r
    assume "r \<in> set (peer_registry (registry (s\<lparr>registry := S', sessions := (sessions s)(c \<mapsto> sid')\<rparr>)))"
      and con: "p_status r = Connected"
    then have r: "r \<in> set (register_node n (peer_registry (registry s)))" by (simp add: h')
    show "\<exists>c'. sessions (s\<lparr>registry := S', sessions := (sessions s)(c \<mapsto> sid')\<rparr>) c' =
        Some (Some (n_id (p_node r)))"
    proof (cases "n_id (p_node r) = n_id n")
      case True
      then show ?thesis by (intro exI [of _ c]) (simp add: h')
    next
      case False
      with r con alive obtain c' where c': "sessions s c' = Some (Some (n_id (p_node r)))"
        by (auto simp: connected_alive_def dest: register_other)
      have "c' \<noteq> c"
      proof
        assume "c' = c"
        then have "sid = Some (n_id (p_node r))" using c' sid by simp
        then have "n_id n = n_id (p_node r)" using Register by (rule one)
        then show False using False by simp
      qed
      then show ?thesis using c' by auto
    qed
  qed
qed

lemma connected_alive_close:
  assumes alive: "connected_alive s" and ok: "registry_ok (registry s)" and sid: "sessions s c = Some sid"
  shows "connected_alive (s\<lparr>registry := close_session True sid (registry s), sessions := (sessions s)(c := None)\<rparr>)"
proof (cases sid)
  case None
  have "\<exists>c'. c' \<noteq> c \<and> sessions s c' = Some (Some (n_id (p_node r)))"
    if "r \<in> set (peer_registry (registry s))" "p_status r = Connected" for r
    using alive that sid None unfolding connected_alive_def by (metis option.distinct(1) option.inject)
  then show ?thesis using None by (fastforce simp: connected_alive_def close_session_printed)
next
  case (Some i)
  with ok have rs: "peer_registry (close_session True sid (registry s)) =
      mark_disconnected i (peer_registry (registry s))" and d: "distinct (node_ids (peer_registry (registry s)))"
    by (simp_all add: close_session_printed registry_ok_def)
  show ?thesis
    unfolding connected_alive_def
  proof (intro ballI impI)
    fix r
    assume "r \<in> set (peer_registry (registry (s\<lparr>registry := close_session True sid (registry s),
        sessions := (sessions s)(c := None)\<rparr>)))" and con: "p_status r = Connected"
    then have r: "r \<in> set (mark_disconnected i (peer_registry (registry s)))" by (simp add: rs)
    then have ne: "n_id (p_node r) \<noteq> i" using mark_not_connected [OF d] con by auto
    with r con alive obtain c' where c': "sessions s c' = Some (Some (n_id (p_node r)))"
      by (auto simp: connected_alive_def dest: mark_other)
    have "c' \<noteq> c" using c' sid Some ne by auto
    then show "\<exists>c'. sessions (s\<lparr>registry := close_session True sid (registry s),
        sessions := (sessions s)(c := None)\<rparr>) c' = Some (Some (n_id (p_node r)))" using c' by auto
  qed
qed

lemma server_run_alive:
  assumes "server_run s es t" and "s = server_init" and "one_identity es"
  shows "(poisoned (registry t) \<or> connected_alive t) \<and> sessions_justified es t"
  using assms
proof (induction rule: server_run.induct)
  case (run_nil s)
  then show ?case
    by (simp add: connected_alive_def sessions_justified_def server_init_def server_new_def)
next
  case (run_snoc s es t e u)
  have one: "one_identity es" using run_snoc.prems(2) unfolding one_identity_def set_append by blast
  have alive: "poisoned (registry t) \<or> connected_alive t" and just: "sessions_justified es t"
    using run_snoc.IH [OF run_snoc.prems(1) one] by simp_all
  have "poisoned (registry u) \<or> connected_alive u"
  proof (cases "poisoned (registry u)")
    case False
    with server_step_poisoned [OF run_snoc.hyps(2)] alive have al: "connected_alive t"
      and np: "\<not> poisoned (registry t)" and quiet: "\<not> panics e" by simp_all
    have ok: "registry_ok (registry t)"
      using server_run_distinct [OF run_snoc.hyps(1)] run_snoc.prems(1) np
      by (simp add: registry_ok_def server_init_def server_new_def)
    from run_snoc.hyps(2) have "connected_alive u"
    proof cases
      case (accept c)
      then show ?thesis using connected_alive_accept [OF al] by simp
    next
      case (request c sid req resp sid' S')
      have "n_id n = i" if "sid = Some i" "req = Register n" for i n
      proof -
        from just request(3) that(1) obtain n' where "Request c (Register n') \<in> set es" "n_id n' = i"
          unfolding sessions_justified_def by blast
        moreover have "Request c (Register n) \<in> set (es @ [e])" using request(1) that(2) by simp
        moreover from calculation have "Request c (Register n') \<in> set (es @ [e])" by simp
        ultimately show ?thesis using one_identityD [OF run_snoc.prems(2)] \<open>n_id n' = i\<close> by blast
      qed
      then show ?thesis using connected_alive_request [OF al ok request(3,4)] request(2) by simp
    next
      case (close c sid)
      then show ?thesis using connected_alive_close [OF al ok] by simp
    qed (use al quiet in simp_all)
    then show ?thesis by simp
  qed simp
  then show ?case using step_sessions_justified [OF run_snoc.hyps(2) just] by simp
qed

section \<open>A record and its session along a run\<close>

text \<open>Events that leave the record of a node alone: no registration of it, no closing of its sessions.\<close>

fun touches :: "server_state \<Rightarrow> uuid \<Rightarrow> server_event \<Rightarrow> bool" where
  "touches s i (Request c (Register n)) = (n_id n = i)"
| "touches s i (Close c) = (sessions s c = Some (Some i))"
| "touches s i _ = False"

lemma register_keeps: "x \<in> set rs \<Longrightarrow> n_id (p_node x) \<noteq> n_id n \<Longrightarrow> x \<in> set (register_node n rs)"
  by (auto simp: register_node_def has_node_id_def intro: update_first_other)

lemma mark_keeps: "x \<in> set rs \<Longrightarrow> n_id (p_node x) \<noteq> i \<Longrightarrow> x \<in> set (mark_disconnected i rs)"
  unfolding mark_disconnected_def by (intro update_first_other) (auto simp: has_node_id_def)

lemma server_step_keeps_record:
  "server_step s e t \<Longrightarrow> \<not> poisoned (registry t) \<Longrightarrow> x \<in> set (peer_registry (registry s)) \<Longrightarrow>
   \<not> touches s (n_id (p_node x)) e \<Longrightarrow> x \<in> set (peer_registry (registry t))"
proof (induction rule: server_step.induct)
  case (request s c sid req resp sid' S')
  then show ?case by (cases req) (auto simp: handle_request_def Let_def register_keeps split: if_splits)
next
  case (close s c sid)
  then show ?case by (auto simp: close_session_printed mark_keeps split: option.splits)
next
  case (request_panic s c sid req sid' S')
  then show ?case using handle_request_poisoned [OF request_panic(2)] by simp
qed simp_all

lemma server_step_session:
  "server_step s e t \<Longrightarrow> sessions t c = Some (Some i) \<Longrightarrow> \<not> touches s i e \<Longrightarrow> sessions s c = Some (Some i)"
proof (induction rule: server_step.induct)
  case (request s c' sid req resp sid' S')
  then show ?case
    by (cases req) (auto simp: handle_request_def Let_def split: if_splits)
qed (auto split: if_splits)

lemma server_step_session_kept:
  "server_step s e t \<Longrightarrow> sessions s c = Some (Some i) \<Longrightarrow> \<not> panics e \<Longrightarrow>
   \<not> (\<exists>n. e = Request c (Register n)) \<Longrightarrow> e \<noteq> Close c \<Longrightarrow> sessions t c = Some (Some i)"
proof (induction rule: server_step.induct)
  case (request s c' sid req resp sid' S')
  then show ?case by (cases req) (auto simp: handle_request_def)
qed auto

end
