(* ===== verification/Engine.thy ===== *)
theory Engine
  imports Bundle_Manager Network_Client Registry
begin

text \<open>
  \<open>routing/engine.rs\<close> and \<open>routing/scf.rs\<close>: the routing engine of a node.
  \<open>route_bundle\<close> is split as the code's branches are: acknowledgements
  (\<open>route_ack\<close>), a data bundle at its destination (\<open>route_delivered\<close>), a data
  bundle to carry on (\<open>route_onward\<close>). The loops over peers are recursive functions that
  thread the world. An operation takes the engine, the bundle and the world and returns them
  updated; \<open>None\<close> is a panic of the storage layer.
\<close>

record RoutingEngine =
  eng_node_id :: uuid
  eng_peers :: "uuid list"
  registry_address :: string
  eng_server :: Server
  bundle_manager :: BundleManager

text \<open>The nodes of the command line own an engine; \<open>Node.routing_engine\<close>.\<close>

record AppNode = Node +
  routing_engine :: "RoutingEngine option"

definition engine_new ::
    "'v env \<Rightarrow> uuid \<Rightarrow> uuid list \<Rightarrow> string \<Rightarrow> world \<Rightarrow> (RoutingEngine \<times> world) option" where
  "engine_new E i peers name W =
     do {
       (M, W) \<leftarrow> bm_new E i name W;
       Some (\<lparr>eng_node_id = i, eng_peers = peers, registry_address = ''127.0.0.1:9100'',
              eng_server = server_new, bundle_manager = M\<rparr>, W)
     }"

definition node_new ::
    "'v env \<Rightarrow> string \<Rightarrow> string \<Rightarrow> u16 \<Rightarrow> uuid list \<Rightarrow> world \<Rightarrow> (AppNode \<times> world) option" where
  "node_new E name address port peers W =
     do {
       i \<leftarrow> node_id E name;
       (engine, W) \<leftarrow> engine_new E i peers name W;
       Some (\<lparr>n_id = i, n_name = name, n_address = address, n_port = port, n_peers = peers,
              routing_engine = Some engine\<rparr>, W)
     }"

section \<open>Summary vectors\<close>

definition get_summary_vector :: "'v env \<Rightarrow> manager \<Rightarrow> Bundle list \<times> manager" where
  "get_summary_vector E m = bm_get_bundles_from_node E m"

definition anti_entropy :: "Bundle list \<Rightarrow> uuid list \<Rightarrow> Bundle list" where
  "anti_entropy local_sv peer_sv = filter (\<lambda>b. b_id b \<notin> set peer_sv) local_sv"

definition get_peer_summary_vector ::
    "'v env \<Rightarrow> RoutingEngine \<Rightarrow> string \<Rightarrow> u16 \<Rightarrow> world \<Rightarrow> uuid list \<times> world" where
  "get_peer_summary_vector E e peer_addr peer_port W =
     (case request_peer_sv E (eng_node_id e) (socket_addr peer_addr peer_port) W of
        (Some is, W) \<Rightarrow> (is, W)
      | (None, W) \<Rightarrow> ([], W))"

abbreviation peer_socket :: "PeerRecord \<Rightarrow> string" where
  "peer_socket p \<equiv> socket_addr (n_address (p_node p)) (n_port (p_node p))"

section \<open>The loops of \<open>route_bundle\<close>\<close>

text \<open>
  The peers the registry reports as connected, for the engine's peers and one more node that
  is always asked for, without the node itself.
\<close>

definition connected_peers ::
    "'v env \<Rightarrow> RoutingEngine \<Rightarrow> uuid \<Rightarrow> world \<Rightarrow> PeerRecord list \<times> world" where
  "connected_peers E e extra W =
     (let requested_ids =
            (if extra \<in> set (eng_peers e) then eng_peers e else eng_peers e @ [extra]);
          (ps, W) = get_connected_peers_from_server E (registry_address e) requested_ids W
      in (filter (\<lambda>p. n_id (p_node p) \<noteq> eng_node_id e) ps, W))"

fun peers_needing ::
    "'v env \<Rightarrow> RoutingEngine \<Rightarrow> uuid \<Rightarrow> PeerRecord list \<Rightarrow> world \<Rightarrow> PeerRecord list \<times> world" where
  "peers_needing E e i [] W = ([], W)"
| "peers_needing E e i (p # ps) W =
     (let (peer_sv, W) = get_peer_summary_vector E e (n_address (p_node p)) (n_port (p_node p)) W;
          (rest, W) = peers_needing E e i ps W
      in (if i \<notin> set peer_sv then p # rest else rest, W))"

text \<open>How many of the peers took the bundle.\<close>

fun send_to_peers ::
    "'v env \<Rightarrow> RoutingEngine \<Rightarrow> Bundle \<Rightarrow> PeerRecord list \<Rightarrow> world \<Rightarrow> nat \<times> world" where
  "send_to_peers E e b [] W = (0, W)"
| "send_to_peers E e b (p # ps) W =
     (let (ok, W) = send_bundle E (eng_node_id e) b (peer_socket p) W;
          (n, W) = send_to_peers E e b ps W
      in (if ok then Suc n else n, W))"

text \<open>The inner loop of the data branch; the result of \<open>send_bundle\<close> is dropped.\<close>

fun send_all ::
    "'v env \<Rightarrow> RoutingEngine \<Rightarrow> Bundle list \<Rightarrow> string \<Rightarrow> world \<Rightarrow> world" where
  "send_all E e [] addr W = W"
| "send_all E e (b # bs) addr W =
     (let (_, W) = send_bundle E (eng_node_id e) b addr W in send_all E e bs addr W)"

fun forward_to_peers ::
    "'v env \<Rightarrow> RoutingEngine \<Rightarrow> Bundle list \<Rightarrow> PeerRecord list \<Rightarrow> world \<Rightarrow> bool \<times> world" where
  "forward_to_peers E e pending [] W = (False, W)"
| "forward_to_peers E e pending (p # ps) W =
     (let (peer_sv, W) = get_peer_summary_vector E e (n_address (p_node p)) (n_port (p_node p)) W;
          to_forward = anti_entropy pending peer_sv;
          W = send_all E e to_forward (peer_socket p) W;
          (sent_to_peer, W) = forward_to_peers E e pending ps W
      in (to_forward \<noteq> [] \<or> sent_to_peer, W))"

section \<open>\<open>route_bundle\<close>\<close>

type_synonym route_result = "(RoutingEngine \<times> Bundle \<times> world) option"

text \<open>
  Propagating an acknowledgement: ask every peer, send it to those that do not hold it, and
  mark \<open>stored\<close> as in transit if at least one took it. The engine, whether a peer took
  it, and the world.
\<close>

definition propagate_ack ::
    "'v env \<Rightarrow> RoutingEngine \<Rightarrow> Bundle \<Rightarrow> PeerRecord list \<Rightarrow> world \<Rightarrow>
     (RoutingEngine \<times> bool \<times> world) option" where
  "propagate_ack E e ack connected W =
     (let (peers_needing_ack, W) = peers_needing E e (b_id ack) connected W;
          (sent_count, W) = send_to_peers E e ack peers_needing_ack W
      in if sent_count > 0
         then do {
           (_, (M, W)) \<leftarrow> bm_upsert_bundle E (ack\<lparr>b_status := InTransit\<rparr>) (bundle_manager e, W);
           Some (e\<lparr>bundle_manager := M\<rparr>, True, W)
         }
         else Some (e, False, W))"

definition route_ack :: "'v env \<Rightarrow> RoutingEngine \<Rightarrow> Bundle \<Rightarrow> world \<Rightarrow> route_result" where
  "route_ack E e b W =
     (let (connected, W) = connected_peers E e (n_id (b_destination b)) W
      in if eng_node_id e = n_id (b_destination b)
         then do {
           (_, m) \<leftarrow> handle_incoming_ack E b (bundle_manager e, W);
           let b = b\<lparr>b_status := Delivered\<rparr>;
           (_, (M, W)) \<leftarrow> bm_upsert_bundle E b m;
           Some (e\<lparr>bundle_manager := M\<rparr>, b, W)
         }
         else do {
           (first_seen, (M, W)) \<leftarrow> handle_incoming_ack E b (bundle_manager e, W);
           let e = e\<lparr>bundle_manager := M\<rparr>;
           if \<not> first_seen then Some (e, b, W)
           else do {
             (e, taken, W) \<leftarrow> propagate_ack E e b connected W;
             Some (e, if taken then b\<lparr>b_status := InTransit\<rparr> else b, W)
           }
         })"

definition route_delivered ::
    "'v env \<Rightarrow> RoutingEngine \<Rightarrow> Bundle \<Rightarrow> PeerRecord list \<Rightarrow> world \<Rightarrow> route_result" where
  "route_delivered E e b connected W =
     do {
       let b = b\<lparr>b_status := Delivered\<rparr>;
       (_, (M, W)) \<leftarrow> bm_upsert_bundle E b (bundle_manager e, W);
       let (ack, W) = new_ack E b W;
       let (known, m) = bm_has_bundle E (b_id ack) (M, W);
       (created_here, (M, W)) \<leftarrow> (if known then Some (False, m) else bm_save_bundle E ack m);
       let e = e\<lparr>bundle_manager := M\<rparr>;
       if \<not> created_here then Some (e, b, W)
       else do {
         (e, _, W) \<leftarrow> propagate_ack E e ack connected W;
         Some (e, b, W)
       }
     }"

definition route_onward ::
    "'v env \<Rightarrow> RoutingEngine \<Rightarrow> Bundle \<Rightarrow> PeerRecord list \<Rightarrow> world \<Rightarrow> route_result" where
  "route_onward E e b connected W =
     do {
       (_, m) \<leftarrow> bm_save_bundle E b (bundle_manager e, W);
       let (local_sv, (M, W)) = get_summary_vector E m;
       let pending_bundles = filter (\<lambda>x. b_status x = Pending) local_sv;
       let (sent_to_peer, W) = forward_to_peers E e pending_bundles connected W;
       if sent_to_peer
       then do {
         let b = b\<lparr>b_status := InTransit\<rparr>;
         (_, (M, W)) \<leftarrow> bm_upsert_bundle E b (M, W);
         Some (e\<lparr>bundle_manager := M\<rparr>, b, W)
       }
       else Some (e\<lparr>bundle_manager := M\<rparr>, b, W)
     }"

definition route_data :: "'v env \<Rightarrow> RoutingEngine \<Rightarrow> Bundle \<Rightarrow> world \<Rightarrow> route_result" where
  "route_data E e b W =
     (let (expired, W) = is_expired E b W
      in if expired
         then do {
           (_, (M, W)) \<leftarrow> bm_delete_bundle E (b_id b) (bundle_manager e, W);
           Some (e\<lparr>bundle_manager := M\<rparr>, b\<lparr>b_status := Expired\<rparr>, W)
         }
         else
           (let (connected, W) = connected_peers E e (n_id (b_source b)) W
            in if eng_node_id e = n_id (b_destination b)
               then route_delivered E e b connected W
               else route_onward E e b connected W))"

definition route_bundle :: "'v env \<Rightarrow> RoutingEngine \<Rightarrow> Bundle \<Rightarrow> world \<Rightarrow> route_result" where
  "route_bundle E e b W = (if is_Ack (b_kind b) then route_ack E e b W else route_data E e b W)"

section \<open>\<open>retry_unsynced_bundles\<close>\<close>

text \<open>
  The inner loop: the identifiers of the bundles a peer took, each once, in order.
\<close>

fun retry_send ::
    "'v env \<Rightarrow> RoutingEngine \<Rightarrow> Bundle list \<Rightarrow> string \<Rightarrow> uuid list \<Rightarrow> world \<Rightarrow> uuid list \<times> world" where
  "retry_send E e [] addr acc W = (acc, W)"
| "retry_send E e (b # bs) addr acc W =
     (let (ok, W) = send_bundle E (eng_node_id e) b addr W
      in retry_send E e bs addr (if ok \<and> b_id b \<notin> set acc then acc @ [b_id b] else acc) W)"

fun retry_peers ::
    "'v env \<Rightarrow> RoutingEngine \<Rightarrow> Bundle list \<Rightarrow> PeerRecord list \<Rightarrow> uuid list \<Rightarrow> world \<Rightarrow> uuid list \<times> world" where
  "retry_peers E e retryable [] acc W = (acc, W)"
| "retry_peers E e retryable (p # ps) acc W =
     (let (peer_sv, W) = get_peer_summary_vector E e (n_address (p_node p)) (n_port (p_node p)) W;
          to_forward = anti_entropy retryable peer_sv;
          (acc, W) = retry_send E e to_forward (peer_socket p) acc W
      in retry_peers E e retryable ps acc W)"

fun mark_in_transit :: "'v env \<Rightarrow> uuid list \<Rightarrow> manager \<Rightarrow> manager option" where
  "mark_in_transit E [] m = Some m"
| "mark_in_transit E (i # is) m =
     (let (r, m) = bm_get E i m
      in case r of
           None \<Rightarrow> mark_in_transit E is m
         | Some b \<Rightarrow>
             do {
               (_, m) \<leftarrow> bm_upsert_bundle E (b\<lparr>b_status := InTransit\<rparr>) m;
               mark_in_transit E is m
             })"

text \<open>
  The source calls \<open>get_connected_peers_from_server(&self.peers)\<close> here, with one
  argument where the function takes two. \<open>query\<close> stands for that call: what it returns
  for the list of peers.
\<close>

definition retry_unsynced_bundles ::
    "(uuid list \<Rightarrow> world \<Rightarrow> PeerRecord list \<times> world) \<Rightarrow> 'v env \<Rightarrow> RoutingEngine \<Rightarrow> world \<Rightarrow>
     (RoutingEngine \<times> world) option" where
  "retry_unsynced_bundles query E e W =
     (let (ps, W) = query (eng_peers e) W;
          connected = filter (\<lambda>p. n_id (p_node p) \<noteq> eng_node_id e) ps
      in if connected = [] then Some (e, W)
         else
           (let (local_sv, (M, W)) = get_summary_vector E (bundle_manager e, W);
                e = e\<lparr>bundle_manager := M\<rparr>;
                retryable = filter (\<lambda>b. b_status b = Pending \<or> b_status b = InTransit) local_sv
            in if retryable = [] then Some (e, W)
               else
                 (let (sent_ids, W) = retry_peers E e retryable connected [] W
                  in do {
                    (M, W) \<leftarrow> mark_in_transit E sent_ids (bundle_manager e, W);
                    Some (e\<lparr>bundle_manager := M\<rparr>, W)
                  })))"

section \<open>\<open>routing/scf.rs\<close>\<close>

fun expired_ids :: "'v env \<Rightarrow> Bundle list \<Rightarrow> world \<Rightarrow> uuid list \<times> world" where
  "expired_ids E [] W = ([], W)"
| "expired_ids E (b # bs) W =
     (let (x, W) = is_expired E b W; (is, W) = expired_ids E bs W
      in (if x then b_id b # is else is, W))"

fun delete_all :: "'v env \<Rightarrow> uuid list \<Rightarrow> manager \<Rightarrow> manager option" where
  "delete_all E [] m = Some m"
| "delete_all E (i # is) m = do { (_, m) \<leftarrow> bm_delete_bundle E i m; delete_all E is m }"

definition drop_expired_bundles :: "'v env \<Rightarrow> manager \<Rightarrow> manager option" where
  "drop_expired_bundles E m =
     (let (bs, (M, W)) = bm_all E m; (is, W) = expired_ids E bs W in delete_all E is (M, W))"

definition forward_loop :: "'v env \<Rightarrow> nat \<Rightarrow> manager \<Rightarrow> manager option" where
  "forward_loop E retry_interval m =
     do { (M, W) \<leftarrow> drop_expired_bundles E m; Some (M, W\<lparr>slept := slept W + retry_interval\<rparr>) }"

end
