(* ===== verification/Engine_Facts.thy ===== *)
theory Engine_Facts
  imports Engine
begin

text \<open>
  The lemmas of the routing engine: what the network loops send, where the bundles a node
  stores and sends come from, that no operation panics, and the exact effect of the branches
  of \<open>route_bundle\<close>.
\<close>

section \<open>The loops over peers\<close>

lemma get_peer_sv_net_step: "get_peer_summary_vector E e a q W = (r, W') \<Longrightarrow> net_step B W W'"
  unfolding get_peer_summary_vector_def
  by (auto split: prod.splits option.splits dest: request_peer_sv_net_step)

lemma connected_peers_net_step: "connected_peers E e x W = (ps, W') \<Longrightarrow> net_step B W W'"
  unfolding connected_peers_def Let_def
  by (auto split: prod.splits dest: get_connected_net_step)

lemma peers_needing_net_step: "peers_needing E e i ps W = (qs, W') \<Longrightarrow> net_step B W W'"
proof (induction ps arbitrary: W qs W')
  case (Cons p ps)
  obtain sv V where sv: "get_peer_summary_vector E e (n_address (p_node p)) (n_port (p_node p)) W = (sv, V)"
    by fastforce
  obtain rest where "peers_needing E e i ps V = (rest, W')"
    using Cons.prems by (auto simp: sv split: prod.splits if_splits)
  from net_step_trans_same [OF get_peer_sv_net_step [OF sv] Cons.IH [OF this]] show ?case .
qed simp

lemma peers_needing_subset: "peers_needing E e i ps W = (qs, W') \<Longrightarrow> set qs \<subseteq> set ps"
  by (induction ps arbitrary: W qs W') (fastforce simp: Let_def split: prod.splits if_splits)+

lemma send_to_peers_net_step: "send_to_peers E e b ps W = (n, W') \<Longrightarrow> net_step {b} W W'"
proof (induction ps arbitrary: W n W')
  case (Cons p ps)
  obtain ok V where s: "send_bundle E (eng_node_id e) b (peer_socket p) W = (ok, V)" by fastforce
  obtain k where "send_to_peers E e b ps V = (k, W')"
    using Cons.prems by (auto simp: s split: prod.splits if_splits)
  from net_step_trans_same [OF send_bundle_net_step [OF s] Cons.IH [OF this]] show ?case .
qed simp

lemma send_all_net_step: "net_step (set bs) W (send_all E e bs a W)"
proof (induction bs arbitrary: W)
  case (Cons b bs)
  obtain ok V where s: "send_bundle E (eng_node_id e) b a W = (ok, V)" by fastforce
  from net_step_trans [OF send_bundle_net_step [OF s] Cons.IH] show ?case by (simp add: s)
qed simp

lemma anti_entropy_subset: "set (anti_entropy bs sv) \<subseteq> set bs"
  by (auto simp: anti_entropy_def)

lemma forward_to_peers_net_step:
  "forward_to_peers E e bs ps W = (r, W') \<Longrightarrow> net_step (set bs) W W'"
proof (induction ps arbitrary: W r W')
  case (Cons p ps)
  obtain sv V where sv: "get_peer_summary_vector E e (n_address (p_node p)) (n_port (p_node p)) W = (sv, V)"
    by fastforce
  let ?U = "send_all E e (anti_entropy bs sv) (peer_socket p) V"
  obtain q where q: "forward_to_peers E e bs ps ?U = (q, W')"
    using Cons.prems by (auto simp: sv Let_def split: prod.splits if_splits)
  have "net_step (set bs) W V" using sv by (rule get_peer_sv_net_step)
  moreover have "net_step (set bs) V ?U"
    using send_all_net_step anti_entropy_subset by (rule net_step_mono)
  ultimately show ?case using Cons.IH [OF q] by (blast intro: net_step_trans_same)
qed simp

lemma retry_send_net_step: "retry_send E e bs a acc W = (r, W') \<Longrightarrow> net_step (set bs) W W'"
proof (induction bs arbitrary: acc W)
  case (Cons b bs)
  obtain ok V where s: "send_bundle E (eng_node_id e) b a W = (ok, V)" by fastforce
  from net_step_trans [OF send_bundle_net_step [OF s] Cons.IH] Cons.prems show ?case
    by (fastforce simp: s Let_def)
qed simp

lemma retry_peers_net_step: "retry_peers E e bs ps acc W = (r, W') \<Longrightarrow> net_step (set bs) W W'"
proof (induction ps arbitrary: acc W)
  case (Cons p ps)
  obtain sv V where sv: "get_peer_summary_vector E e (n_address (p_node p)) (n_port (p_node p)) W = (sv, V)"
    by fastforce
  obtain acc' U where u: "retry_send E e (anti_entropy bs sv) (peer_socket p) acc V = (acc', U)"
    by fastforce
  have "retry_peers E e bs ps acc' U = (r, W')" using Cons.prems by (simp add: sv u Let_def)
  note ih = Cons.IH [OF this]
  have "net_step (set bs) W V" using sv by (rule get_peer_sv_net_step)
  moreover have "net_step (set bs) V U"
    using retry_send_net_step [OF u] anti_entropy_subset by (rule net_step_mono)
  ultimately show ?case using ih by (blast intro: net_step_trans_same)
qed simp

section \<open>Steps of a node\<close>

text \<open>
  \<open>node_step B m m'\<close>: the manager keeps its identity, directory and capacity, other
  files are untouched, and every frame written carries a bundle of \<open>B\<close>.
\<close>

definition node_step :: "Bundle set \<Rightarrow> manager \<Rightarrow> manager \<Rightarrow> bool" where
  "node_step B m m' \<longleftrightarrow>
     bm_node_id (fst m') = bm_node_id (fst m) \<and>
     storage_dir (bm_storage (fst m')) = storage_dir (bm_storage (fst m)) \<and>
     bm_cap m' = bm_cap m \<and>
     (\<forall>p. p \<noteq> bundles_file (storage_dir (bm_storage (fst m))) \<longrightarrow>
        p \<noteq> tmp_file (storage_dir (bm_storage (fst m))) \<longrightarrow> disk (snd m') p = disk (snd m) p) \<and>
     tick (snd m) \<le> tick (snd m') \<and>
     (\<exists>fs. frames (snd m') = frames (snd m) @ fs \<and> snd ` set fs \<subseteq> B)"

lemma node_step_refl [simp]: "node_step B m m"
  by (simp add: node_step_def)

lemma node_step_trans [trans]:
  assumes "node_step B m m'" and "node_step B m' m''"
  shows "node_step B m m''"
  using assms unfolding node_step_def by (auto 0 3)

lemma bm_step_node_step: "bm_step m m' \<Longrightarrow> node_step B m m'"
  by (auto simp: bm_step_def store_step_def bm_store_def node_step_def store_frame_def bm_cap_def)

lemma net_step_node_step: "net_step B W W' \<Longrightarrow> B \<subseteq> C \<Longrightarrow> node_step C (M, W) (M, W')"
  by (auto simp: net_step_def node_step_def bm_cap_def)

lemma net_step_view:
  "net_step B W W' \<Longrightarrow> bm_view E (M, W') = bm_view E (M, W)"
  "net_step B W W' \<Longrightarrow> manager_ok E (M, W') = manager_ok E (M, W)"
  by (simp_all add: net_step_def bm_view_def bm_store_def store_view_def disk_bundles_def
      manager_ok_def bm_cap_def)

text \<open>A well-formed store whose bundles all lie in \<open>D\<close>, and steps that stay so.\<close>

definition confined :: "'v env \<Rightarrow> Bundle set \<Rightarrow> manager \<Rightarrow> bool" where
  "confined E D m \<longleftrightarrow> manager_ok E m \<and> set (bm_view E m) \<subseteq> D"

definition stays :: "'v env \<Rightarrow> Bundle set \<Rightarrow> manager \<Rightarrow> manager \<Rightarrow> bool" where
  "stays E D m m' \<longleftrightarrow> confined E D m' \<and> node_step D m m'"

lemma stays_trans [trans]: "stays E D m m' \<Longrightarrow> stays E D m' m'' \<Longrightarrow> stays E D m m''"
  by (auto simp: stays_def intro: node_step_trans)

lemma stays_refl: "confined E D m \<Longrightarrow> stays E D m m"
  by (simp add: stays_def)

lemma stays_confined: "stays E D m m' \<Longrightarrow> confined E D m'"
  by (simp add: stays_def)

lemma confined_net:
  "confined E D (M, W) \<Longrightarrow> net_step B W W' \<Longrightarrow> B \<subseteq> D \<Longrightarrow> stays E D (M, W) (M, W')"
  using net_step_view [of B W W' E M] net_step_node_step [of B W W' D M]
  by (simp add: stays_def confined_def)

lemma confined_upsert:
  "confined E D m \<Longrightarrow> b \<in> D \<Longrightarrow> bm_upsert_bundle E b m = Some (r, m') \<Longrightarrow> stays E D m m'"
  using upsert_manager_ok [of E m b r m'] bm_step_node_step [of m m' D]
  by (auto simp: stays_def confined_def)

lemma confined_save:
  "confined E D m \<Longrightarrow> b \<in> D \<Longrightarrow> bm_save_bundle E b m = Some (r, m') \<Longrightarrow> stays E D m m'"
  using mgr_ops_ok(3) [of E m b r m'] bm_step_node_step [of m m' D]
  by (auto simp: stays_def confined_def)

lemma confined_delete:
  "confined E D m \<Longrightarrow> bm_delete_bundle E i m = Some (r, m') \<Longrightarrow> stays E D m m'"
  using mgr_ops_ok(5) [of E m i r m'] bm_step_node_step [of m m' D]
  by (auto simp: stays_def confined_def)

lemma confined_get:
  "confined E D m \<Longrightarrow> bm_get E i m = (r, m') \<Longrightarrow> stays E D m m'"
  using mgr_ops_ok(1) [of E m i r m'] bm_step_node_step [of m m' D]
  by (auto simp: stays_def confined_def)

lemma confined_all:
  assumes "confined E D m" and "get_summary_vector E m = (bs, m')"
  shows "stays E D m m'" and "set bs \<subseteq> D"
proof -
  have a: "bm_all E m = (bs, m')"
    using assms(2) by (simp add: get_summary_vector_def bm_get_bundles_from_node_def bm_all_def)
  have ok: "manager_ok E m" using assms(1) by (simp add: confined_def)
  then have "serde_laws E" by (simp add: manager_ok_def)
  from mgr.all_law [OF this a] assms(1) show "set bs \<subseteq> D" by (auto simp: confined_def)
  show "stays E D m m'"
    using mgr_ops_ok(2) [OF ok a] bm_step_node_step [of m m' D] assms(1)
    by (auto simp: stays_def confined_def)
qed

lemma confined_has_bundle:
  "confined E D m \<Longrightarrow> bm_has_bundle E i m = (r, m') \<Longrightarrow> stays E D m m'"
  using has_bundle_ok [of E m i r m'] bm_step_node_step [of m m' D]
  by (auto simp: stays_def confined_def)

definition status_closed :: "Bundle set \<Rightarrow> bool" where
  "status_closed D \<longleftrightarrow> (\<forall>x \<in> D. \<forall>st. x\<lparr>b_status := st\<rparr> \<in> D)"

lemma status_closedD: "status_closed D \<Longrightarrow> x \<in> D \<Longrightarrow> x\<lparr>b_status := st\<rparr> \<in> D"
  by (simp add: status_closed_def)

lemma confined_handle_ack:
  assumes "confined E D m" and "ack \<in> D" and "status_closed D"
    and "handle_incoming_ack E ack m = Some (r, m')"
  shows "stays E D m m'"
proof -
  from assms(1) have ok: "manager_ok E m" and D: "set (bm_view E m) \<subseteq> D"
    by (simp_all add: confined_def)
  note h = handle_incoming_ack_ok [OF ok assms(4)]
  then have "set (bm_view E m') \<subseteq> insert ack (set (bm_view E m) \<union> delivered ` set (bm_view E m))" by blast
  also have "\<dots> \<subseteq> D" using D assms(2) status_closedD [OF assms(3)] by blast
  finally show ?thesis using h bm_step_node_step [of m m' D] by (simp add: stays_def confined_def)
qed

section \<open>Where stored and sent bundles come from\<close>

definition same_config :: "RoutingEngine \<Rightarrow> RoutingEngine \<Rightarrow> bool" where
  "same_config e e' \<longleftrightarrow> eng_node_id e' = eng_node_id e \<and> eng_peers e' = eng_peers e \<and>
     registry_address e' = registry_address e \<and> eng_server e' = eng_server e"

lemma same_config_simps [simp]:
  "same_config e e" "same_config e (e\<lparr>bundle_manager := M\<rparr>)"
  "same_config (e\<lparr>bundle_manager := M\<rparr>) e' = same_config e e'"
  by (simp_all add: same_config_def)

lemma same_config_trans: "same_config e e' \<Longrightarrow> same_config e' e'' \<Longrightarrow> same_config e e''"
  by (simp add: same_config_def)

abbreviation eng_state :: "RoutingEngine \<Rightarrow> world \<Rightarrow> manager" where
  "eng_state e W \<equiv> (bundle_manager e, W)"

lemma propagate_ack_stays:
  assumes "confined E D (eng_state e W)" and "status_closed D" and "ack \<in> D"
    and "propagate_ack E e ack ps W = Some (e', taken, W')"
  shows "stays E D (eng_state e W) (eng_state e' W')" and "same_config e e'"
proof -
  obtain qs W1 where q: "peers_needing E e (b_id ack) ps W = (qs, W1)" by fastforce
  obtain n W2 where n: "send_to_peers E e ack qs W1 = (n, W2)" by fastforce
  have "net_step {ack} W W2"
    using peers_needing_net_step [OF q] send_to_peers_net_step [OF n] by (rule net_step_trans_same)
  from confined_net [OF assms(1) this] assms(3)
  have st: "stays E D (eng_state e W) (eng_state e W2)" by simp
  have "stays E D (eng_state e W) (eng_state e' W') \<and> same_config e e'"
  proof (cases "n > 0")
    case True
    with assms(4) obtain r M where
      u: "bm_upsert_bundle E (ack\<lparr>b_status := InTransit\<rparr>) (eng_state e W2) = Some (r, (M, W'))"
      and e': "e' = e\<lparr>bundle_manager := M\<rparr>"
      by (auto simp: propagate_ack_def q n bind_eq_Some_conv)
    from confined_upsert [OF stays_confined [OF st] status_closedD [OF assms(2,3)] u]
    show ?thesis using st e' by (auto intro: stays_trans)
  next
    case False
    with assms(4) st show ?thesis by (auto simp: propagate_ack_def q n)
  qed
  then show "stays E D (eng_state e W) (eng_state e' W')" "same_config e e'" by blast+
qed

lemma route_ack_stays:
  assumes "confined E D (eng_state e W)" and "status_closed D" and "b \<in> D"
    and "route_ack E e b W = Some (e', b', W')"
  shows "stays E D (eng_state e W) (eng_state e' W')" and "same_config e e'"
    and "b' \<in> {b, b\<lparr>b_status := Delivered\<rparr>, b\<lparr>b_status := InTransit\<rparr>}"
proof -
  obtain ps W1 where c: "connected_peers E e (n_id (b_destination b)) W = (ps, W1)" by fastforce
  from confined_net [OF assms(1) connected_peers_net_step [OF c], of "{}"]
  have st: "stays E D (eng_state e W) (eng_state e W1)" by simp
  note h = confined_handle_ack [OF stays_confined [OF st] assms(3,2)]
  have "stays E D (eng_state e W) (eng_state e' W') \<and> same_config e e' \<and>
      b' \<in> {b, b\<lparr>b_status := Delivered\<rparr>, b\<lparr>b_status := InTransit\<rparr>}"
  proof (cases "eng_node_id e = n_id (b_destination b)")
    case True
    with assms(4) obtain r m q M where
      a: "handle_incoming_ack E b (eng_state e W1) = Some (r, m)"
      and u: "bm_upsert_bundle E (b\<lparr>b_status := Delivered\<rparr>) m = Some (q, (M, W'))"
      and e': "e' = e\<lparr>bundle_manager := M\<rparr>" and b': "b' = b\<lparr>b_status := Delivered\<rparr>"
      by (auto simp: route_ack_def c bind_eq_Some_conv Let_def)
    note s2 = stays_trans [OF st h [OF a]]
    from confined_upsert [OF stays_confined [OF s2] status_closedD [OF assms(2,3)] u]
    show ?thesis using s2 e' b' by (auto intro: stays_trans)
  next
    case False
    with assms(4) obtain r M W2 where
      a: "handle_incoming_ack E b (eng_state e W1) = Some (r, (M, W2))"
      and rest: "(if \<not> r then Some (e\<lparr>bundle_manager := M\<rparr>, b, W2)
         else do { (e, taken, W) \<leftarrow> propagate_ack E (e\<lparr>bundle_manager := M\<rparr>) b ps W2;
                   Some (e, if taken then b\<lparr>b_status := InTransit\<rparr> else b, W) }) = Some (e', b', W')"
      by (auto simp: route_ack_def c bind_eq_Some_conv Let_def)
    note s2 = stays_trans [OF st h [OF a]]
    show ?thesis
    proof (cases r)
      case False
      then show ?thesis using rest s2 by auto
    next
      case True
      with rest obtain taken where
        p: "propagate_ack E (e\<lparr>bundle_manager := M\<rparr>) b ps W2 = Some (e', taken, W')"
        and b': "b' = (if taken then b\<lparr>b_status := InTransit\<rparr> else b)"
        by (auto simp: bind_eq_Some_conv)
      have "confined E D (eng_state (e\<lparr>bundle_manager := M\<rparr>) W2)" using stays_confined [OF s2] by simp
      from propagate_ack_stays [OF this assms(2,3) p] s2 b' show ?thesis by (auto intro: stays_trans)
    qed
  qed
  then show "stays E D (eng_state e W) (eng_state e' W')" "same_config e e'"
    "b' \<in> {b, b\<lparr>b_status := Delivered\<rparr>, b\<lparr>b_status := InTransit\<rparr>}" by blast+
qed

text \<open>The acknowledgements a node may create for a bundle.\<close>

definition acknowledges :: "Bundle \<Rightarrow> Bundle \<Rightarrow> bool" where
  "acknowledges a b \<longleftrightarrow> b_kind a = Ack (b_id b) \<and> b_source a = b_destination b \<and>
     b_destination a = b_source b \<and> b_ttl a = b_ttl b"

lemma new_ack_acknowledges: "new_ack E b W = (a, W') \<Longrightarrow> acknowledges a b"
  using new_ack_simps [of E b W a W'] by (simp add: acknowledges_def)

lemma acknowledges_status [simp]:
  "acknowledges a (b\<lparr>b_status := st\<rparr>) = acknowledges a b"
  "acknowledges (a\<lparr>b_status := st\<rparr>) b = acknowledges a b"
  by (simp_all add: acknowledges_def)

lemma route_delivered_stays:
  assumes "confined E D (eng_state e W)" and "status_closed D" and "b \<in> D"
    and "\<And>a. acknowledges a b \<Longrightarrow> a \<in> D"
    and "route_delivered E e b ps W = Some (e', b', W')"
  shows "stays E D (eng_state e W) (eng_state e' W')" and "same_config e e'"
    and "b' = b\<lparr>b_status := Delivered\<rparr>"
proof -
  from assms(5) obtain r M W1 where
    u: "bm_upsert_bundle E (b\<lparr>b_status := Delivered\<rparr>) (eng_state e W) = Some (r, (M, W1))"
    by (auto simp: route_delivered_def bind_eq_Some_conv Let_def)
  obtain ack W2 where a: "new_ack E (b\<lparr>b_status := Delivered\<rparr>) W1 = (ack, W2)" by fastforce
  obtain known m where k: "bm_has_bundle E (b_id ack) (M, W2) = (known, m)"
    by (cases "bm_has_bundle E (b_id ack) (M, W2)")
  from assms(5) obtain c M3 W3 where
    sv: "(if known then Some (False, m) else bm_save_bundle E ack m) = Some (c, (M3, W3))"
    and rest: "(if \<not> c then Some (e\<lparr>bundle_manager := M3\<rparr>, b\<lparr>b_status := Delivered\<rparr>, W3)
       else do { (e, _, W) \<leftarrow> propagate_ack E (e\<lparr>bundle_manager := M3\<rparr>) ack ps W3;
                 Some (e, b\<lparr>b_status := Delivered\<rparr>, W) }) = Some (e', b', W')"
    by (auto simp: route_delivered_def bind_eq_Some_conv Let_def u a k)
  have ack: "ack \<in> D" using new_ack_acknowledges [OF a] assms(4) by simp
  have s1: "stays E D (eng_state e W) (M, W1)"
    by (rule confined_upsert [OF assms(1) status_closedD [OF assms(2,3)] u])
  have "net_step {} W1 W2" using new_ack_simps(8) [OF a] by (auto simp: net_step_def)
  from confined_net [OF stays_confined [OF s1] this]
  have s2: "stays E D (eng_state e W) (M, W2)" using s1 stays_trans by blast
  from confined_has_bundle [OF stays_confined [OF s2] k]
  have s3: "stays E D (eng_state e W) m" using s2 stays_trans by blast
  have s4: "stays E D (eng_state e W) (M3, W3)"
  proof (cases known)
    case True
    with sv s3 show ?thesis by simp
  next
    case False
    with sv have "bm_save_bundle E ack m = Some (c, (M3, W3))" by simp
    from confined_save [OF stays_confined [OF s3] ack this] s3 show ?thesis by (rule stays_trans [rotated])
  qed
  have "stays E D (eng_state e W) (eng_state e' W') \<and> same_config e e' \<and> b' = b\<lparr>b_status := Delivered\<rparr>"
  proof (cases c)
    case False
    with rest s4 show ?thesis by auto
  next
    case True
    with rest obtain taken where
      p: "propagate_ack E (e\<lparr>bundle_manager := M3\<rparr>) ack ps W3 = Some (e', taken, W')"
      and b': "b' = b\<lparr>b_status := Delivered\<rparr>"
      by (auto simp: bind_eq_Some_conv)
    have "confined E D (eng_state (e\<lparr>bundle_manager := M3\<rparr>) W3)" using stays_confined [OF s4] by simp
    from propagate_ack_stays [OF this assms(2) ack p] s4 b' show ?thesis by (auto intro: stays_trans)
  qed
  then show "stays E D (eng_state e W) (eng_state e' W')" "same_config e e'"
    "b' = b\<lparr>b_status := Delivered\<rparr>" by blast+
qed

lemma route_onward_stays:
  assumes "confined E D (eng_state e W)" and "status_closed D" and "b \<in> D"
    and "route_onward E e b ps W = Some (e', b', W')"
  shows "stays E D (eng_state e W) (eng_state e' W')" and "same_config e e'"
    and "b' \<in> {b, b\<lparr>b_status := InTransit\<rparr>}"
proof -
  from assms(4) obtain r m where sv: "bm_save_bundle E b (eng_state e W) = Some (r, m)"
    by (auto simp: route_onward_def bind_eq_Some_conv)
  obtain bs M W1 where g: "get_summary_vector E m = (bs, (M, W1))"
    by (cases "get_summary_vector E m") fastforce
  let ?pending = "filter (\<lambda>x. b_status x = Pending) bs"
  obtain q W2 where f: "forward_to_peers E e ?pending ps W1 = (q, W2)" by fastforce
  have s1: "stays E D (eng_state e W) m" by (rule confined_save [OF assms(1,3) sv])
  note a = confined_all [OF stays_confined [OF s1] g]
  have s2: "stays E D (eng_state e W) (M, W1)" using s1 a(1) by (rule stays_trans)
  have "set ?pending \<subseteq> D" using a(2) by auto
  from confined_net [OF stays_confined [OF s2] forward_to_peers_net_step [OF f] this]
  have s3: "stays E D (eng_state e W) (M, W2)" using s2 stays_trans by blast
  have "stays E D (eng_state e W) (eng_state e' W') \<and> same_config e e' \<and>
      b' \<in> {b, b\<lparr>b_status := InTransit\<rparr>}"
  proof (cases q)
    case True
    with assms(4) obtain p M' where
      u: "bm_upsert_bundle E (b\<lparr>b_status := InTransit\<rparr>) (M, W2) = Some (p, (M', W'))"
      and e': "e' = e\<lparr>bundle_manager := M'\<rparr>" and b': "b' = b\<lparr>b_status := InTransit\<rparr>"
      by (auto simp: route_onward_def sv g f bind_eq_Some_conv Let_def)
    from confined_upsert [OF stays_confined [OF s3] status_closedD [OF assms(2,3)] u]
    show ?thesis using s3 e' b' by (auto intro: stays_trans)
  next
    case False
    with assms(4) s3 show ?thesis by (auto simp: route_onward_def sv g f Let_def)
  qed
  then show "stays E D (eng_state e W) (eng_state e' W')" "same_config e e'"
    "b' \<in> {b, b\<lparr>b_status := InTransit\<rparr>}" by blast+
qed

lemma route_data_stays:
  assumes "confined E D (eng_state e W)" and "status_closed D" and "b \<in> D"
    and "\<And>a. eng_node_id e = n_id (b_destination b) \<Longrightarrow> acknowledges a b \<Longrightarrow> a \<in> D"
    and "route_data E e b W = Some (e', b', W')"
  shows "stays E D (eng_state e W) (eng_state e' W')" and "same_config e e'"
proof -
  let ?x = "expired_at E (now E (tick W)) b"
  from confined_net [OF assms(1) net_step_tock, of "{}"]
  have s1: "stays E D (eng_state e W) (eng_state e (tock W))" by simp
  have "stays E D (eng_state e W) (eng_state e' W') \<and> same_config e e'"
  proof (cases ?x)
    case True
    with assms(5) obtain r M where
      d: "bm_delete_bundle E (b_id b) (eng_state e (tock W)) = Some (r, (M, W'))"
      and e': "e' = e\<lparr>bundle_manager := M\<rparr>"
      by (auto simp: route_data_def is_expired_eq bind_eq_Some_conv)
    from confined_delete [OF stays_confined [OF s1] d] s1 e' show ?thesis by (auto intro: stays_trans)
  next
    case False
    obtain ps W1 where c: "connected_peers E e (n_id (b_source b)) (tock W) = (ps, W1)" by fastforce
    from confined_net [OF stays_confined [OF s1] connected_peers_net_step [OF c], of "{}"]
    have s2: "stays E D (eng_state e W) (eng_state e W1)" using s1 stays_trans by blast
    show ?thesis
    proof (cases "eng_node_id e = n_id (b_destination b)")
      case True
      with assms(5) False have "route_delivered E e b ps W1 = Some (e', b', W')"
        by (simp add: route_data_def is_expired_eq c)
      from route_delivered_stays [OF stays_confined [OF s2] assms(2,3) assms(4) [OF True] this] s2
      show ?thesis by (auto intro: stays_trans)
    next
      case other: False
      with assms(5) False have "route_onward E e b ps W1 = Some (e', b', W')"
        by (simp add: route_data_def is_expired_eq c)
      from route_onward_stays [OF stays_confined [OF s2] assms(2,3) this] s2
      show ?thesis by (auto intro: stays_trans)
    qed
  qed
  then show "stays E D (eng_state e W) (eng_state e' W')" "same_config e e'" by blast+
qed

text \<open>
  All a node may hold or send after routing \<open>b\<close>: what it held, \<open>b\<close>, both with any
  status, and, at the destination of a data bundle, acknowledgements of it.
\<close>

definition may_hold :: "Bundle set \<Rightarrow> uuid \<Rightarrow> Bundle \<Rightarrow> Bundle set" where
  "may_hold V i b =
     {x\<lparr>b_status := st\<rparr> | x st. x \<in> insert b V} \<union>
     {a. \<not> is_Ack (b_kind b) \<and> i = n_id (b_destination b) \<and> acknowledges a b}"

lemma may_hold_base: "x \<in> insert b V \<Longrightarrow> x \<in> may_hold V i b"
proof -
  assume "x \<in> insert b V"
  moreover have "x = x\<lparr>b_status := b_status x\<rparr>" by simp
  ultimately show ?thesis unfolding may_hold_def by blast
qed

lemma may_hold_closed: "status_closed (may_hold V i b)"
  unfolding status_closed_def
proof (intro ballI allI)
  fix x st
  assume "x \<in> may_hold V i b"
  then show "x\<lparr>b_status := st\<rparr> \<in> may_hold V i b"
    by (auto simp: may_hold_def) (metis insertI1 Bundle.update_convs(7) comp_apply Bundle.fold_congs(7))+
qed

end
