(* ===== verification/Network_Facts.thy ===== *)
theory Network_Facts
  imports Network_Client
begin

text \<open>
  The results of the network client: when a connection attempt succeeds and how long it
  waits, what \<open>send_bundle\<close> puts on the wire, and that a receiver takes off the wire what
  the sender put on it.
\<close>

section \<open>Connecting\<close>

text \<open>
  The first attempt that the network lets through, if there is one; a failed attempt is
  followed by a pause, except the last.
\<close>

definition connect_spec :: "'v env \<Rightarrow> string \<Rightarrow> nat \<Rightarrow> nat \<Rightarrow> world \<Rightarrow> stream option \<times> world" where
  "connect_spec E a n d W =
     (case find (\<lambda>k. tcp_connect E (tick W + k) a) [0..<n] of
        Some k \<Rightarrow> (Some \<lparr>s_addr = a, s_in = tcp_incoming E (tick W + k) a\<rparr>,
                   W\<lparr>tick := tick W + Suc k, slept := slept W + k * d\<rparr>)
      | None \<Rightarrow> (None, W\<lparr>tick := tick W + n, slept := slept W + (n - 1) * d\<rparr>))"

lemma find_upt_Suc:
  "find P [0..<Suc n] = (if P 0 then Some 0 else map_option Suc (find (P \<circ> Suc) [0..<n]))"
proof -
  have "find P (map Suc xs) = map_option Suc (find (P \<circ> Suc) xs)" for xs by (induction xs) auto
  moreover have "[0..<Suc n] = 0 # map Suc [0..<n]" by (simp add: map_Suc_upt upt_conv_Cons del: upt_Suc)
  ultimately show ?thesis by simp
qed

text \<open>The loop from attempt \<open>i\<close> on, with \<open>m\<close> attempts left.\<close>

lemma connect_attempts_eq:
  assumes "k + 1 = i + m"
  shows "connect_attempts E a k d [i..<i + m] W =
     (case find (\<lambda>j. tcp_connect E (tick W + j) a) [0..<m] of
        Some j \<Rightarrow> (Some \<lparr>s_addr = a, s_in = tcp_incoming E (tick W + j) a\<rparr>,
                   W\<lparr>tick := tick W + Suc j, slept := slept W + j * d\<rparr>)
      | None \<Rightarrow> (None, W\<lparr>tick := tick W + m, slept := slept W + (m - 1) * d\<rparr>))"
  using assms
proof (induction m arbitrary: i W)
  case 0
  then show ?case by simp
next
  case (Suc m)
  let ?V = "if i < k then (tock W)\<lparr>slept := slept (tock W) + d\<rparr> else tock W"
  have up: "[i..<i + Suc m] = i # [Suc i..<Suc i + m]" by (simp add: upt_conv_Cons del: upt_Suc)
  show ?case
  proof (cases "tcp_connect E (tick W) a")
    case True
    then show ?thesis unfolding up by (simp add: find_upt_Suc tock_def del: upt_Suc)
  next
    case False
    have ih: "connect_attempts E a k d [Suc i..<Suc i + m] ?V =
      (case find (\<lambda>j. tcp_connect E (tick ?V + j) a) [0..<m] of
        Some j \<Rightarrow> (Some \<lparr>s_addr = a, s_in = tcp_incoming E (tick ?V + j) a\<rparr>,
                   ?V\<lparr>tick := tick ?V + Suc j, slept := slept ?V + j * d\<rparr>)
      | None \<Rightarrow> (None, ?V\<lparr>tick := tick ?V + m, slept := slept ?V + (m - 1) * d\<rparr>))"
      using Suc.prems by (intro Suc.IH) simp
    have t: "tick ?V = Suc (tick W)" by simp
    have l: "i < k \<longleftrightarrow> m \<noteq> 0" using Suc.prems by auto
    have f: "find (\<lambda>j. tcp_connect E (tick W + j) a) [0..<Suc m] =
        map_option Suc (find (\<lambda>j. tcp_connect E (Suc (tick W) + j) a) [0..<m])"
      using False by (simp add: find_upt_Suc comp_def del: upt_Suc)
    have "connect_attempts E a k d [i..<i + Suc m] W = connect_attempts E a k d [Suc i..<Suc i + m] ?V"
      unfolding up using False by (simp add: Let_def del: upt_Suc)
    also note ih [unfolded t]
    finally show ?thesis unfolding f using l
      by (cases m) (auto simp: tock_def split: option.splits)
  qed
qed

lemma connect_with_retry_eq: "connect_with_retry E a n d W = connect_spec E a n d W"
  using connect_attempts_eq [of n 1 n E a d W] by (simp add: connect_with_retry_def connect_spec_def)

section \<open>Sending\<close>

text \<open>The two writes of a frame.\<close>

definition framed :: "byte list \<Rightarrow> byte list" where
  "framed payload = length_prefix payload @ payload"

lemma connect_keeps:
  assumes "connect_with_retry E a n d W = (c, W')"
  shows "sent W' = sent W" and "frames W' = frames W" and "\<And>S. c = Some S \<Longrightarrow> s_addr S = a"
  using assms unfolding connect_with_retry_eq connect_spec_def by (auto split: option.splits)

text \<open>
  A \<open>true\<close> of \<open>send_bundle\<close> means that the whole frame was written and that four
  bytes came back; only then and after a failed read of those bytes is a frame recorded.
\<close>

lemma send_bundle_cases:
  assumes "send_bundle E i b a W = (r, W')"
  obtains "frames W' = frames W" and "\<not> r"
  | payload where "serialize E (proto_of_bundle E b) = Some payload"
      and "frames W' = frames W @ [(a, b)]"
      and "sent W' = sent W @ [(a, length_prefix payload), (a, payload)]"
proof -
  consider "frames W' = frames W" "\<not> r"
    | payload where "serialize E (proto_of_bundle E b) = Some payload"
        "frames W' = frames W @ [(a, b)]" "sent W' = sent W @ [(a, length_prefix payload), (a, payload)]"
  proof (cases "serialize E (proto_of_bundle E b)")
    case None
    with assms that(1) show ?thesis by (simp add: send_bundle_def)
  next
    case (Some payload)
    obtain c W1 where c: "connect_with_retry E a 3 2 W = (c, W1)" by fastforce
    note k = connect_keeps [OF c]
    show ?thesis
    proof (cases c)
      case None
      with assms that(1) Some c k show ?thesis by (simp add: send_bundle_def connect_to_peer_def)
    next
      case S: (Some S)
      with k have "s_addr S = a" by simp
      with assms that Some c S k show ?thesis
        by (auto simp: send_bundle_def connect_to_peer_def stream_write_all_def stream_read_exact_def
            Let_def split: option.splits if_splits)
    qed
  qed
  then show thesis using that by cases
qed

text \<open>A network that lets every connection and every write through.\<close>

definition net_ok :: "'v env \<Rightarrow> bool" where
  "net_ok E \<longleftrightarrow> (\<forall>n a. tcp_connect E n a) \<and> (\<forall>n. tcp_write E n = None) \<and>
     (\<forall>p. write_to_bytes E p \<noteq> None)"

lemma net_ok_connect:
  assumes "net_ok E"
  shows "connect_with_retry E a 3 2 W = (Some \<lparr>s_addr = a, s_in = tcp_incoming E (tick W) a\<rparr>, tock W)"
  using assms by (simp add: connect_with_retry_def net_ok_def upt_conv_Cons)

lemma send_bundle_net_ok:
  assumes "net_ok E" and "send_bundle E i b a W = (r, W')"
  shows "frames W' = frames W @ [(a, b)]"
proof -
  obtain payload where "serialize E (proto_of_bundle E b) = Some payload"
    using assms(1) unfolding net_ok_def serialize_def by blast
  with assms(2) show ?thesis using assms(1) unfolding net_ok_def
    by (auto simp: send_bundle_def connect_to_peer_def net_ok_connect [OF assms(1)]
        stream_write_all_def stream_read_exact_def Let_def split: if_splits)
qed

text \<open>What one call adds to the history: a frame, and the frame once more if it was answered.\<close>

lemma send_bundle_history:
  assumes "send_bundle E i b a W = (r, W')"
  shows "\<exists>fs. frames W' = frames W @ fs \<and> set fs \<subseteq> {(a, b)} \<and> (r \<longrightarrow> fs = [(a, b)])"
    and "answered W' = answered W @ (if r then [(a, b)] else [])"
proof -
  have keep: "frames V' = frames V \<and> answered V' = answered V" if "net_step {} V V'" for V V'
    using that by (auto simp: net_step_def)
  have w: "frames V' = frames V \<and> answered V' = answered V" if "stream_write_all E S bs V = (ok, V')" for S bs V ok V'
    using keep [OF net_steps(1) [OF that]] .
  have x: "frames V' = frames V \<and> answered V' = answered V" if "stream_read_exact E n S V = (q, S', V')" for n S V q S' V'
    using keep [OF net_steps(3) [OF that]] .
  have c: "frames V' = frames V \<and> answered V' = answered V" if "connect_with_retry E a 3 2 V = (q, V')" for V q V'
    using keep [OF net_steps(4) [OF that]] .
  have "(\<exists>fs. frames W' = frames W @ fs \<and> set fs \<subseteq> {(a, b)} \<and> (r \<longrightarrow> fs = [(a, b)])) \<and>
      answered W' = answered W @ (if r then [(a, b)] else [])"
    using assms unfolding send_bundle_def connect_to_peer_def Let_def
    by (auto split: prod.splits option.splits if_splits dest!: c w x)
  then show "\<exists>fs. frames W' = frames W @ fs \<and> set fs \<subseteq> {(a, b)} \<and> (r \<longrightarrow> fs = [(a, b)])"
    and "answered W' = answered W @ (if r then [(a, b)] else [])" by blast+
qed

section \<open>Receiving\<close>

text \<open>
  \<open>protobuf_laws\<close>: \<open>parse_from_bytes\<close> reads back what \<open>write_to_bytes\<close> wrote.
\<close>

definition protobuf_laws :: "'v env \<Rightarrow> bool" where
  "protobuf_laws E \<longleftrightarrow> (\<forall>p bs. write_to_bytes E p = Some bs \<longrightarrow> parse_from_bytes E bs = Some p)"

lemma framed_length [simp]: "length (framed payload) = 4 + length payload"
  by (simp add: framed_def length_prefix_def)

lemma prefix_value:
  "length payload < 2 ^ 32 \<Longrightarrow> unat (from_be_bytes (length_prefix payload)) = length payload"
  by (simp add: length_prefix_def unsigned_of_nat take_bit_nat_eq_self)

lemma receive_framed:
  assumes "protobuf_laws E" and "\<And>n. tcp_read E n" and "length payload < 2 ^ 32"
    and "serialize E (proto_of_bundle E b) = Some payload" and "s_in S = framed payload @ rest"
  shows "\<exists>W'. receive_bundle E S W = (Some (over_wire E b), S\<lparr>s_in := rest\<rparr>, W')"
proof -
  have p: "deserialize E payload = Some (proto_of_bundle E b)"
    using assms(1,4) by (simp add: protobuf_laws_def serialize_def deserialize_def)
  have "stream_read_exact E 4 S W = (Some (length_prefix payload), S\<lparr>s_in := payload @ rest\<rparr>, tock W)"
    using assms(2,5) by (simp add: stream_read_exact_def framed_def length_prefix_def)
  moreover have "stream_read_exact E (length payload) (S\<lparr>s_in := payload @ rest\<rparr>) (tock W) =
      (Some payload, S\<lparr>s_in := rest\<rparr>, tock (tock W))"
    using assms(2) by (simp add: stream_read_exact_def)
  ultimately show ?thesis
    by (simp add: receive_bundle_def prefix_value [OF assms(3)] p over_wire_def split: prod.splits)
qed

text \<open>The sample environment satisfies the laws.\<close>

lemma sample_net_ok: "net_ok sample_env"
  by (simp add: net_ok_def sample_env_def)

lemma sample_protobuf_laws: "protobuf_laws sample_env"
proof -
  have "get_pb (put_pb p) = Some (p, [])" for p using readsD [OF reads_pb, of p "[]"] by simp
  then show ?thesis by (auto simp: protobuf_laws_def sample_env_def)
qed

end
