(* ===== verification/Engine_Results.thy ===== *)
theory Engine_Results
  imports Engine_Facts Network_Facts
begin

text \<open>
  The results of the routing engine: where every bundle it stores or sends comes from, that
  routing returns, and what each branch of \<open>route_bundle\<close> leaves in the store.
\<close>

section \<open>Provenance\<close>

lemma route_bundle_stays:
  assumes "confined E D (eng_state e W)" and "status_closed D" and "b \<in> D"
    and "\<And>a. \<not> is_Ack (b_kind b) \<Longrightarrow> eng_node_id e = n_id (b_destination b) \<Longrightarrow>
      acknowledges a b \<Longrightarrow> a \<in> D"
    and "route_bundle E e b W = Some (e', b', W')"
  shows "stays E D (eng_state e W) (eng_state e' W')" and "same_config e e'"
proof -
  have "stays E D (eng_state e W) (eng_state e' W') \<and> same_config e e'"
  proof (cases "is_Ack (b_kind b)")
    case True
    with assms(5) have "route_ack E e b W = Some (e', b', W')" by (simp add: route_bundle_def)
    from route_ack_stays [OF assms(1-3) this] show ?thesis by blast
  next
    case False
    with assms(5) have "route_data E e b W = Some (e', b', W')" by (simp add: route_bundle_def)
    from route_data_stays [OF assms(1-3) assms(4) [OF False] this] show ?thesis by blast
  qed
  then show "stays E D (eng_state e W) (eng_state e' W')" "same_config e e'" by blast+
qed

lemma route_bundle_confined:
  assumes "manager_ok E (eng_state e W)" and "route_bundle E e b W = Some (e', b', W')"
  defines "D \<equiv> may_hold (set (bm_view E (eng_state e W))) (eng_node_id e) b"
  shows "stays E D (eng_state e W) (eng_state e' W')" and "same_config e e'"
proof -
  have sub: "insert b (set (bm_view E (eng_state e W))) \<subseteq> D"
    using may_hold_base unfolding D_def by blast
  then have c: "confined E D (eng_state e W)" using assms(1) by (auto simp: confined_def)
  have a: "\<And>a. \<not> is_Ack (b_kind b) \<Longrightarrow> eng_node_id e = n_id (b_destination b) \<Longrightarrow>
      acknowledges a b \<Longrightarrow> a \<in> D"
    by (simp add: D_def may_hold_def)
  have "status_closed D" unfolding D_def by (rule may_hold_closed)
  moreover from sub have "b \<in> D" by blast
  ultimately have D: "status_closed D" "b \<in> D" by blast+
  note r = route_bundle_stays [OF c D a assms(2)]
  show "stays E D (eng_state e W) (eng_state e' W')" "same_config e e'" using r by blast+
qed

section \<open>Routing returns\<close>

lemmas total_simps = Let_def bind_eq_None_conv

lemma propagate_ack_total:
  assumes "manager_ok E (eng_state e W)"
  shows "propagate_ack E e a ps W \<noteq> None"
proof -
  obtain qs W1 where q: "peers_needing E e (b_id a) ps W = (qs, W1)" by fastforce
  obtain n W2 where n: "send_to_peers E e a qs W1 = (n, W2)" by fastforce
  have "net_step {a} W W2"
    using peers_needing_net_step [OF q] send_to_peers_net_step [OF n] by (rule net_step_trans_same)
  then have "manager_ok E (eng_state e W2)" using assms net_step_view(2) by blast
  from upsert_total [OF this] show ?thesis by (auto simp: propagate_ack_def q n total_simps simp del: not_None_eq split: prod.splits)
qed

lemma route_ack_total:
  assumes "manager_ok E (eng_state e W)"
  shows "route_ack E e b W \<noteq> None"
proof -
  obtain ps W1 where c: "connected_peers E e (n_id (b_destination b)) W = (ps, W1)" by fastforce
  have ok: "manager_ok E (eng_state e W1)"
    using assms net_step_view(2) [OF connected_peers_net_step [OF c]] by blast
  obtain r M W2 where h: "handle_incoming_ack E b (eng_state e W1) = Some (r, (M, W2))"
    using handle_incoming_ack_total [OF ok] by (metis not_None_eq surj_pair)
  from handle_incoming_ack_ok [OF ok h] have ok2: "manager_ok E (M, W2)" by simp
  show ?thesis
    using upsert_total [OF ok2] propagate_ack_total [of E "e\<lparr>bundle_manager := M\<rparr>" W2] ok2
    by (auto simp: route_ack_def c h total_simps simp del: not_None_eq split: prod.splits)
qed

lemma route_delivered_total:
  assumes "manager_ok E (eng_state e W)"
  shows "route_delivered E e b ps W \<noteq> None"
proof -
  obtain r M W1 where u: "bm_upsert_bundle E (delivered b) (eng_state e W) = Some (r, (M, W1))"
    using upsert_total [OF assms] by (metis not_None_eq surj_pair)
  obtain ack W2 where a: "new_ack E (delivered b) W1 = (ack, W2)" by fastforce
  obtain known m where k: "bm_has_bundle E (b_id ack) (M, W2) = (known, m)"
    by (cases "bm_has_bundle E (b_id ack) (M, W2)")
  have "net_step {} W1 W2" using new_ack_simps(8) [OF a] by (auto simp: net_step_def)
  then have "manager_ok E (M, W2)"
    using upsert_manager_ok [OF assms u] net_step_view(2) by blast
  then have ok: "manager_ok E m" using has_bundle_ok [OF _ k] by blast
  then have "serde_laws E" by (simp add: manager_ok_def)
  obtain c M3 W3 where s: "(if known then Some (False, m) else bm_save_bundle E ack m) = Some (c, (M3, W3))"
    using mgr.total(1) [OF \<open>serde_laws E\<close>, of ack m] by (cases m; cases known) auto
  have "manager_ok E (M3, W3)"
    using s ok mgr_ops_ok(3) [OF ok, of ack] by (cases known) auto
  then show ?thesis
    using propagate_ack_total [of E "e\<lparr>bundle_manager := M3\<rparr>" W3]
    by (auto simp: route_delivered_def u a k s total_simps simp del: not_None_eq split: prod.splits)
qed

lemma route_onward_total:
  assumes "manager_ok E (eng_state e W)"
  shows "route_onward E e b ps W \<noteq> None"
proof -
  have "serde_laws E" using assms by (simp add: manager_ok_def)
  then obtain r m where sv: "bm_save_bundle E b (eng_state e W) = Some (r, m)"
    using mgr.total(1) by (metis not_None_eq surj_pair)
  obtain bs M W1 where g: "get_summary_vector E m = (bs, (M, W1))"
    by (cases "get_summary_vector E m") fastforce
  let ?pending = "filter (\<lambda>x. b_status x = Pending) bs"
  obtain q W2 where f: "forward_to_peers E e ?pending ps W1 = (q, W2)" by fastforce
  have "bm_all E m = (bs, (M, W1))"
    using g by (simp add: get_summary_vector_def bm_get_bundles_from_node_def bm_all_def)
  from mgr_ops_ok(2) [OF _ this] mgr_ops_ok(3) [OF assms sv] have "manager_ok E (M, W1)" by blast
  then have "manager_ok E (M, W2)" using net_step_view(2) [OF forward_to_peers_net_step [OF f]] by blast
  from upsert_total [OF this] show ?thesis by (auto simp: route_onward_def sv g f total_simps simp del: not_None_eq split: prod.splits)
qed

lemma route_data_total:
  assumes "manager_ok E (eng_state e W)"
  shows "route_data E e b W \<noteq> None"
proof -
  have ok: "manager_ok E (eng_state e (tock W))"
    using assms net_step_view(2) [OF net_step_tock] by blast
  obtain ps W1 where c: "connected_peers E e (n_id (b_source b)) (tock W) = (ps, W1)" by fastforce
  have ok1: "manager_ok E (eng_state e W1)"
    using ok net_step_view(2) [OF connected_peers_net_step [OF c]] by blast
  have "serde_laws E" using assms by (simp add: manager_ok_def)
  then show ?thesis
    using route_delivered_total [OF ok1] route_onward_total [OF ok1] mgr.total(3) [of E "b_id b" "eng_state e (tock W)"]
    by (auto simp: route_data_def is_expired_eq c total_simps simp del: not_None_eq split: prod.splits)
qed

lemma route_bundle_total:
  "manager_ok E (eng_state e W) \<Longrightarrow> route_bundle E e b W \<noteq> None"
  using route_ack_total route_data_total by (auto simp: route_bundle_def)

end
