(* ===== verification/Engine_Exact.thy ===== *)
theory Engine_Exact
  imports Engine_Results
begin

text \<open>
  What each branch of \<open>route_bundle\<close> leaves in the store of a node whose disk works,
  and what it writes to a network that works.
\<close>

section \<open>Bookkeeping\<close>

lemma net_view: "net_step B W W' \<Longrightarrow> bm_view E (M, W') = bm_view E (M, W)"
  by (rule net_step_view(1))

lemma summary_exact:
  assumes "serde_laws E" and "io_ok E" and "get_summary_vector E m = (bs, m')"
  shows "bs = bm_view E m" and "bm_view E m' = bm_view E m" and "bm_step m m'"
proof -
  have a: "bm_all E m = (bs, m')"
    using assms(3) by (simp add: get_summary_vector_def bm_get_bundles_from_node_def bm_all_def)
  from mgr.all_exact [OF conjI [OF assms(1,2)] a] show "bs = bm_view E m" by simp
  from mgr.all_law [OF assms(1) a] show "bm_view E m' = bm_view E m" "bm_step m m'" by simp_all
qed

lemma manager_okD:
  assumes "manager_ok E m"
  shows "serde_laws E" and "distinct (map b_id (bm_view E m))" and "length (bm_view E m) \<le> bm_cap m"
  using assms by (simp_all add: manager_ok_def well_formed_def)

text \<open>The identifiers an upsert may add, and an upserted acknowledgement.\<close>

lemma upsert_ids:
  assumes "manager_ok E m" and "bm_upsert_bundle E b m = Some (r, m')"
  shows "b_id ` set (bm_view E m') \<subseteq> insert (b_id b) (b_id ` set (bm_view E m))"
  using upsert_manager_ok [OF assms] by blast

lemma upsert_stored:
  assumes "serde_laws E" and "io_ok E" and "bm_upsert_bundle E b m = Some (r, m')"
    and "has_id (bm_view E m) (b_id b)" and "\<not> (is_Data (b_kind b) \<and> has_ack (bm_view E m) (b_id b))"
  shows "b \<in> set (bm_view E m')"
  using upsert_view_exact(1) [OF assms(1-4)] assms(4,5) replace_has [OF assms(4)]
  by (auto simp: rejects_def)

lemma upsert_kept:
  assumes "serde_laws E" and "io_ok E" and "bm_upsert_bundle E b m = Some (r, m')"
    and "has_id (bm_view E m) (b_id b)" and "x \<in> set (bm_view E m)" and "b_id x \<noteq> b_id b"
  shows "x \<in> set (bm_view E m')"
  using upsert_view_exact(1) [OF assms(1-4)] replace_keeps [OF assms(5,6)] assms(5)
  by (auto split: if_splits)

lemma length_unexpired: "length (unexpired E t bs) \<le> length bs"
  by (rule list_emb_length [OF unexpired_subseq])

lemma unexpired_ids: "has_id (unexpired E t bs) i \<Longrightarrow> has_id bs i"
  using subseq_set [OF unexpired_subseq [of E t bs]] by (auto simp: has_id_iff)

lemma unexpired_acks: "has_ack (unexpired E t bs) i \<Longrightarrow> has_ack bs i"
  using subseq_set [OF unexpired_subseq [of E t bs]] by (auto simp: has_ack_iff)

text \<open>A bundle the store has room for is accepted, whatever the sweep removes.\<close>

lemma accepted:
  assumes "length bs < c" and "\<not> has_id bs (b_id b)" and "\<not> (is_Data (b_kind b) \<and> has_ack bs (b_id b))"
  shows "\<not> refuses (unexpired E t bs) c b"
  using assms length_unexpired [of E t bs] unexpired_ids [of E t bs] unexpired_acks [of E t bs]
  by (auto simp: refuses_def)

lemma upsert_new_stored:
  assumes "serde_laws E" and "io_ok E" and "bm_upsert_bundle E b m = Some (r, m')"
    and "length (bm_view E m) < bm_cap m" and "\<not> has_id (bm_view E m) (b_id b)"
    and "\<not> (is_Data (b_kind b) \<and> has_ack (bm_view E m) (b_id b))"
  shows "b \<in> set (bm_view E m')"
  using upsert_view_exact(2) [OF assms(1-3,5)] accepted [OF assms(4-6), where E = E] by auto

lemma upsert_length:
  assumes "serde_laws E" and "io_ok E" and "bm_upsert_bundle E b m = Some (r, m')"
  shows "length (bm_view E m') \<le> Suc (length (bm_view E m))"
proof (cases "has_id (bm_view E m) (b_id b)")
  case True
  then show ?thesis using upsert_view_exact(1) [OF assms True] by auto
next
  case False
  from upsert_view_exact(2) [OF assms False] show ?thesis
    using length_unexpired le_Suc_eq by fastforce
qed

section \<open>The expired branch\<close>

lemma route_expired_exact:
  assumes "serde_laws E" and "io_ok E" and "\<not> is_Ack (b_kind b)"
    and "expired_at E (now E (tick W)) b" and "route_bundle E e b W = Some (e', b', W')"
  shows "bm_view E (eng_state e' W') = remove_id (b_id b) (bm_view E (eng_state e W))"
    and "b' = b\<lparr>b_status := Expired\<rparr>" and "frames W' = frames W"
proof -
  from assms(3-5) obtain r M where
    d: "bm_delete_bundle E (b_id b) (eng_state e (tock W)) = Some (r, (M, W'))"
    and e': "e' = e\<lparr>bundle_manager := M\<rparr>" and b': "b' = b\<lparr>b_status := Expired\<rparr>"
    by (auto simp: route_bundle_def route_data_def is_expired_eq bind_eq_Some_conv)
  from mgr.delete_exact [OF conjI [OF assms(1,2)] d]
  show "bm_view E (eng_state e' W') = remove_id (b_id b) (bm_view E (eng_state e W))"
    using e' net_view [OF net_step_tock, where E = E] by simp
  have "bm_step (eng_state e (tock W)) (M, W')" using mgr.delete_law [OF assms(1) d] by blast
  from bm_step_node_step [OF this, of "{}"] show "frames W' = frames W" by (simp add: node_step_def)
  show "b' = b\<lparr>b_status := Expired\<rparr>" by (rule b')
qed

section \<open>The acknowledgement branch\<close>

lemma propagate_ack_ids:
  assumes "manager_ok E (eng_state e W)" and "propagate_ack E e a ps W = Some (e', taken, W')"
  shows "b_id ` set (bm_view E (eng_state e' W')) \<subseteq>
      insert (b_id a) (b_id ` set (bm_view E (eng_state e W)))"
    and "io_ok E \<Longrightarrow> a \<in> set (bm_view E (eng_state e W)) \<Longrightarrow> is_Ack (b_kind a) \<Longrightarrow>
      a \<in> set (bm_view E (eng_state e' W')) \<or> a\<lparr>b_status := InTransit\<rparr> \<in> set (bm_view E (eng_state e' W'))"
    and "io_ok E \<Longrightarrow> a \<in> set (bm_view E (eng_state e W)) \<Longrightarrow> x \<in> set (bm_view E (eng_state e W)) \<Longrightarrow>
      b_id x \<noteq> b_id a \<Longrightarrow> x \<in> set (bm_view E (eng_state e' W'))"
proof -
  let ?v = "bm_view E (eng_state e W)" and ?v' = "bm_view E (eng_state e' W')"
  obtain qs W1 where q: "peers_needing E e (b_id a) ps W = (qs, W1)" by fastforce
  obtain n W2 where n: "send_to_peers E e a qs W1 = (n, W2)" by fastforce
  have net: "net_step {a} W W2"
    using peers_needing_net_step [OF q] send_to_peers_net_step [OF n] by (rule net_step_trans_same)
  have v2: "bm_view E (eng_state e W2) = ?v" using net_step_view(1) [OF net] .
  have ok: "manager_ok E (eng_state e W2)" using net_step_view(2) [OF net] assms(1) by blast
  have serde: "serde_laws E" using manager_okD(1) [OF ok] .
  have "b_id ` set ?v' \<subseteq> insert (b_id a) (b_id ` set ?v) \<and>
    (io_ok E \<and> a \<in> set ?v \<and> is_Ack (b_kind a) \<longrightarrow> a \<in> set ?v' \<or> a\<lparr>b_status := InTransit\<rparr> \<in> set ?v') \<and>
    (io_ok E \<and> a \<in> set ?v \<and> x \<in> set ?v \<and> b_id x \<noteq> b_id a \<longrightarrow> x \<in> set ?v')"
  proof (cases "n > 0")
    case True
    with assms(2) obtain r M where
      u: "bm_upsert_bundle E (a\<lparr>b_status := InTransit\<rparr>) (eng_state e W2) = Some (r, (M, W'))"
      and e': "e' = e\<lparr>bundle_manager := M\<rparr>"
      by (auto simp: propagate_ack_def q n bind_eq_Some_conv)
    have "b_id ` set ?v' \<subseteq> insert (b_id a) (b_id ` set ?v)"
      using upsert_ids [OF ok u] e' v2 by simp
    moreover have "a\<lparr>b_status := InTransit\<rparr> \<in> set ?v'"
      if "io_ok E" "a \<in> set ?v" "is_Ack (b_kind a)"
      using upsert_stored [OF serde that(1) u] that e' v2 by (cases "b_kind a") (auto simp: has_id_iff)
    moreover have "x \<in> set ?v'" if "io_ok E" "a \<in> set ?v" "x \<in> set ?v" "b_id x \<noteq> b_id a"
      using upsert_kept [OF serde that(1) u, of x] that e' v2 by (auto simp: has_id_iff)
    ultimately show ?thesis by blast
  next
    case False
    with assms(2) have "e' = e" "W' = W2" by (auto simp: propagate_ack_def q n)
    then show ?thesis using v2 by auto
  qed
  then show "b_id ` set ?v' \<subseteq> insert (b_id a) (b_id ` set ?v)"
    and "io_ok E \<Longrightarrow> a \<in> set ?v \<Longrightarrow> is_Ack (b_kind a) \<Longrightarrow> a \<in> set ?v' \<or> a\<lparr>b_status := InTransit\<rparr> \<in> set ?v'"
    and "io_ok E \<Longrightarrow> a \<in> set ?v \<Longrightarrow> x \<in> set ?v \<Longrightarrow> b_id x \<noteq> b_id a \<Longrightarrow> x \<in> set ?v'" by blast+
qed

text \<open>
  Handling the acknowledgement of \<open>d\<close>: nothing but the acknowledgement is added, the
  bundle \<open>d\<close> goes, and the acknowledgement is remembered if there is room for it.
\<close>

lemma has_ackI: "x \<in> set bs \<Longrightarrow> b_kind x = Ack d \<Longrightarrow> has_ack bs d"
  by (auto simp: has_ack_iff)

lemma handle_ack_view:
  assumes "serde_laws E" and "io_ok E" and "b_kind ack = Ack d" and "b_id ack \<noteq> d"
    and "handle_incoming_ack E ack m = Some (r, m')"
  shows "b_id ` set (bm_view E m') \<subseteq> insert (b_id ack) (b_id ` set (bm_view E m) - {d})"
    and "length (bm_view E m) < bm_cap m \<Longrightarrow> \<not> has_id (bm_view E m) (b_id ack) \<Longrightarrow>
      if r then ack \<in> set (bm_view E m')
      else bm_view E m' = remove_id d (bm_view E m) \<and> has_ack (bm_view E m') d"
proof -
  let ?w = "remove_id d (bm_view E m)"
  have ids: "b_id ` set (unexpired E t ?w) \<subseteq> b_id ` set (bm_view E m) - {d}" for t
    using subseq_set [OF unexpired_subseq [of E t ?w]] by auto
  note x = handle_incoming_ack_exact [OF assms(1-3,5)]
  have len: "length (unexpired E t ?w) \<le> length (bm_view E m)" for t
    by (metis le_trans length_filter_le length_unexpired remove_id_def)
  have "b_id ` set (bm_view E m') \<subseteq> insert (b_id ack) (b_id ` set (bm_view E m) - {d}) \<and>
    (length (bm_view E m) < bm_cap m \<and> \<not> has_id (bm_view E m) (b_id ack) \<longrightarrow>
      (if r then ack \<in> set (bm_view E m') else bm_view E m' = ?w \<and> has_ack ?w d))"
  proof (cases "has_ack ?w d \<or> has_id ?w (b_id ack)")
    case True
    with x(1) have "\<not> r" "bm_view E m' = ?w" by simp_all
    then show ?thesis using True by (auto simp: has_id_iff)
  next
    case False
    with x(2) obtain t where r: "r = (length (unexpired E t ?w) < bm_cap m)"
      and v: "bm_view E m' = (if r then unexpired E t ?w @ [ack] else unexpired E t ?w)" by blast
    have "b_id ` set (bm_view E m') \<subseteq> insert (b_id ack) (b_id ` set (bm_view E m) - {d})"
      using ids [of t] v by auto
    moreover have "r" if "length (bm_view E m) < bm_cap m" using that len [of t] r by simp
    ultimately show ?thesis using v by auto
  qed
  then show "b_id ` set (bm_view E m') \<subseteq> insert (b_id ack) (b_id ` set (bm_view E m) - {d})"
    and "length (bm_view E m) < bm_cap m \<Longrightarrow> \<not> has_id (bm_view E m) (b_id ack) \<Longrightarrow>
      if r then ack \<in> set (bm_view E m')
      else bm_view E m' = remove_id d (bm_view E m) \<and> has_ack (bm_view E m') d"
    by auto
qed

lemma route_ack_settles:
  assumes "manager_ok E (eng_state e W)" and "io_ok E" and "b_kind b = Ack d" and "b_id b \<noteq> d"
    and "route_bundle E e b W = Some (e', b', W')"
  defines "v \<equiv> bm_view E (eng_state e W)" and "v' \<equiv> bm_view E (eng_state e' W')"
  shows "\<not> has_id v' d" and "length v < bm_cap (eng_state e W) \<Longrightarrow> \<not> has_id v (b_id b) \<Longrightarrow> has_ack v' d"
proof -
  let ?room = "length v < bm_cap (eng_state e W) \<and> \<not> has_id v (b_id b)"
  have serde: "serde_laws E" by (rule manager_okD(1) [OF assms(1)])
  obtain ps W1 where c: "connected_peers E e (n_id (b_destination b)) W = (ps, W1)" by fastforce
  note net = connected_peers_net_step [OF c]
  have v1: "bm_view E (eng_state e W1) = v" using net_step_view(1) [OF net] by (simp add: v_def)
  have ok1: "manager_ok E (eng_state e W1)" using net_step_view(2) [OF net] assms(1) by blast
  have cap1: "bm_cap (eng_state e W1) = bm_cap (eng_state e W)" by (simp add: bm_cap_def)
  obtain r M W2 where a: "handle_incoming_ack E b (eng_state e W1) = Some (r, (M, W2))"
    using handle_incoming_ack_total [OF ok1] by (metis not_None_eq surj_pair)
  have ok2: "manager_ok E (M, W2)" using handle_incoming_ack_ok [OF ok1 a] by blast
  have cap2: "bm_cap (M, W2) = bm_cap (eng_state e W)"
    using handle_incoming_ack_ok [OF ok1 a] mgr.step_cap cap1 by metis
  note h = handle_ack_view [OF serde assms(2-4) a, unfolded v1 cap1]
  have len: "length (remove_id d v) \<le> length v" by (simp add: remove_id_def)
  have "b_id ` set v' \<subseteq> insert (b_id b) (b_id ` set v - {d}) \<and> (?room \<longrightarrow> has_ack v' d)"
  proof (cases "eng_node_id e = n_id (b_destination b)")
    case True
    with assms(3,5) a obtain q M' where
      u: "bm_upsert_bundle E (delivered b) (M, W2) = Some (q, (M', W'))"
      and e': "e' = e\<lparr>bundle_manager := M'\<rparr>"
      by (auto simp: route_bundle_def route_ack_def c bind_eq_Some_conv Let_def)
    have v': "v' = bm_view E (M', W')" by (simp add: v'_def e')
    have ids: "b_id ` set v' \<subseteq> insert (b_id b) (b_id ` set v - {d})"
      using upsert_ids [OF ok2 u] h(1) v' by auto
    have "has_ack v' d" if room: ?room
    proof -
      have "delivered b \<in> set v'"
      proof (cases r)
        case True
        then have "has_id (bm_view E (M, W2)) (b_id b)" using h(2) room by (auto simp: has_id_iff)
        then show ?thesis using upsert_stored [OF serde assms(2) u] assms(3) v' by simp
      next
        case False
        then have w: "bm_view E (M, W2) = remove_id d v" using h(2) room by simp
        then show ?thesis
          using upsert_new_stored [OF serde assms(2) u] assms(3) v' cap2 len room
          by (auto simp: has_id_iff)
      qed
      then show ?thesis using assms(3) has_ackI [of "delivered b"] by simp
    qed
    then show ?thesis using ids by blast
  next
    case other: False
    with assms(3,5) a have rest: "(if \<not> r then Some (e\<lparr>bundle_manager := M\<rparr>, b, W2)
         else do { (e, taken, W) \<leftarrow> propagate_ack E (e\<lparr>bundle_manager := M\<rparr>) b ps W2;
                   Some (e, if taken then b\<lparr>b_status := InTransit\<rparr> else b, W) }) = Some (e', b', W')"
      by (auto simp: route_bundle_def route_ack_def c Let_def)
    show ?thesis
    proof (cases r)
      case False
      with rest have "v' = bm_view E (M, W2)" by (auto simp: v'_def)
      then show ?thesis using h False by auto
    next
      case True
      with rest obtain taken where
        p: "propagate_ack E (e\<lparr>bundle_manager := M\<rparr>) b ps W2 = Some (e', taken, W')"
        by (auto simp: bind_eq_Some_conv)
      have ok3: "manager_ok E (eng_state (e\<lparr>bundle_manager := M\<rparr>) W2)" using ok2 by simp
      note p3 = propagate_ack_ids [OF ok3 p, folded v'_def]
      have "has_ack v' d" if ?room
      proof -
        have "b \<in> set (bm_view E (M, W2))" using h(2) that True by simp
        then have "b \<in> set v' \<or> b\<lparr>b_status := InTransit\<rparr> \<in> set v'"
          using p3(2) [OF assms(2)] assms(3) by simp
        then show ?thesis
          using assms(3) has_ackI [of b] has_ackI [of "b\<lparr>b_status := InTransit\<rparr>"] by auto
      qed
      moreover have "b_id ` set v' \<subseteq> insert (b_id b) (b_id ` set v - {d})"
        using p3(1) h(1) by auto
      ultimately show ?thesis by blast
    qed
  qed
  then show "\<not> has_id v' d" and "length v < bm_cap (eng_state e W) \<Longrightarrow> \<not> has_id v (b_id b) \<Longrightarrow> has_ack v' d"
    using assms(4) by (auto simp: has_id_iff)
qed

section \<open>The destination branch\<close>

text \<open>
  A data bundle that reaches its destination is acknowledged there, every time: the fresh
  acknowledgement is stored under an identifier of its own.
\<close>

lemma route_delivered_acks:
  assumes "manager_ok E (eng_state e W)" and "io_ok E"
    and "length (bm_view E (eng_state e W)) + 1 < bm_cap (eng_state e W)"
    and "\<And>n. tick W \<le> n \<Longrightarrow> new_v4 E n \<notin> insert (b_id b) (b_id ` set (bm_view E (eng_state e W)))"
    and "route_delivered E e b ps W = Some (e', b', W')"
  shows "\<exists>a \<in> set (bm_view E (eng_state e' W')). acknowledges a b \<and> b_status a \<in> {Pending, InTransit} \<and>
    b_id a \<notin> b_id ` set (bm_view E (eng_state e W))"
proof -
  let ?v = "bm_view E (eng_state e W)" and ?v' = "bm_view E (eng_state e' W')"
  have serde: "serde_laws E" by (rule manager_okD(1) [OF assms(1)])
  from assms(5) obtain r M W1 where u: "bm_upsert_bundle E (delivered b) (eng_state e W) = Some (r, (M, W1))"
    by (auto simp: route_delivered_def bind_eq_Some_conv Let_def)
  obtain ack W2 where a: "new_ack E (delivered b) W1 = (ack, W2)" by fastforce
  obtain known m where k: "bm_has_bundle E (b_id ack) (M, W2) = (known, m)"
    by (cases "bm_has_bundle E (b_id ack) (M, W2)")
  have net: "net_step {} W1 W2" using new_ack_simps(8) [OF a] by (auto simp: net_step_def)
  have okM: "manager_ok E (M, W2)" and stM: "bm_step (eng_state e W) (M, W1)"
    using upsert_manager_ok [OF assms(1) u] net_step_view(2) [OF net] by blast+
  note hb = has_bundle_exact [OF serde assms(2) k]
  have okm: "manager_ok E m" using has_bundle_ok [OF okM k] by blast
  have cap: "bm_cap m = bm_cap (eng_state e W)"
    using mgr.step_cap [OF hb(3)] mgr.step_cap [OF stM] by (simp add: bm_cap_def)
  have view: "bm_view E m = bm_view E (M, W1)" using hb(2) net_step_view(1) [OF net] by metis
  have ids: "b_id ` set (bm_view E m) \<subseteq> insert (b_id b) (b_id ` set ?v)"
    using upsert_ids [OF assms(1) u] view by simp
  have "tick W \<le> tick W1" using bm_step_node_step [OF stM, of "{}"] by (simp add: node_step_def)
  then have fresh: "b_id ack \<notin> insert (b_id b) (b_id ` set ?v)" using assms(4) new_ack_simps(6) [OF a] by simp
  then have new: "\<not> has_id (bm_view E m) (b_id ack)" using ids by (auto simp: has_id_iff)
  then have "\<not> known" using hb by simp
  obtain c M3 W3 where s: "bm_save_bundle E ack m = Some (c, (M3, W3))"
    using mgr.total(1) [OF serde, of ack m] by (metis not_None_eq surj_pair)
  have kind: "b_kind ack = Ack (b_id b)" using new_ack_simps(3) [OF a] by simp
  have len: "length (bm_view E m) < bm_cap m"
    using upsert_length [OF serde assms(2) u] assms(3) view cap by simp
  have c: "c" and st: "ack \<in> set (bm_view E (M3, W3))"
  proof -
    obtain t where "c = (\<not> refuses (unexpired E t (bm_view E m)) (bm_cap m) ack)"
      "bm_view E (M3, W3) = (if c then unexpired E t (bm_view E m) @ [ack] else unexpired E t (bm_view E m))"
      using save_view_exact [OF serde assms(2) s] by metis
    then show "c" "ack \<in> set (bm_view E (M3, W3))"
      using accepted [OF len new, where E = E and t = t] kind by simp_all
  qed
  from assms(5) obtain taken where
    p: "propagate_ack E (e\<lparr>bundle_manager := M3\<rparr>) ack ps W3 = Some (e', taken, W')"
    using c \<open>\<not> known\<close> by (auto simp: route_delivered_def u a k s bind_eq_Some_conv Let_def)
  have ok3: "manager_ok E (eng_state (e\<lparr>bundle_manager := M3\<rparr>) W3)"
    using mgr_ops_ok(3) [OF okm s] by simp
  have "ack \<in> set ?v' \<or> ack\<lparr>b_status := InTransit\<rparr> \<in> set ?v'"
    using propagate_ack_ids(2) [OF ok3 p assms(2)] st kind by simp
  then obtain x where "x \<in> set ?v'" and "x = ack \<or> x = ack\<lparr>b_status := InTransit\<rparr>" by blast
  then show ?thesis using fresh new_ack_simps(5) [OF a] new_ack_acknowledges [OF a]
    by (auto intro!: bexI [of _ x])
qed

section \<open>The forwarding branch\<close>

text \<open>
  A data bundle for another node is stored and, whatever the network does, still stored at
  the end with the status the caller sees.
\<close>

lemma route_onward_stores:
  assumes "manager_ok E (eng_state e W)" and "io_ok E"
    and "length (bm_view E (eng_state e W)) < bm_cap (eng_state e W)"
    and "\<not> has_id (bm_view E (eng_state e W)) (b_id b)"
    and "\<not> (is_Data (b_kind b) \<and> has_ack (bm_view E (eng_state e W)) (b_id b))"
    and "route_onward E e b ps W = Some (e', b', W')"
  shows "b' \<in> set (bm_view E (eng_state e' W'))" and "b' \<in> {b, b\<lparr>b_status := InTransit\<rparr>}"
proof -
  let ?v = "bm_view E (eng_state e W)" and ?v' = "bm_view E (eng_state e' W')"
  have serde: "serde_laws E" by (rule manager_okD(1) [OF assms(1)])
  from assms(6) obtain r m where sv: "bm_save_bundle E b (eng_state e W) = Some (r, m)"
    by (auto simp: route_onward_def bind_eq_Some_conv)
  obtain bs M W1 where g: "get_summary_vector E m = (bs, (M, W1))"
    by (cases "get_summary_vector E m") fastforce
  let ?pending = "filter (\<lambda>x. b_status x = Pending) bs"
  obtain q W2 where f: "forward_to_peers E e ?pending ps W1 = (q, W2)" by fastforce
  obtain t where "bm_view E m = unexpired E t ?v @ [b]"
    using save_view_exact [OF serde assms(2) sv] accepted [OF assms(3-5), where E = E] by metis
  moreover have "bm_view E (M, W2) = bm_view E m"
    using summary_exact(2) [OF serde assms(2) g] net_step_view(1) [OF forward_to_peers_net_step [OF f]]
    by metis
  ultimately have v2: "bm_view E (M, W2) = unexpired E t ?v @ [b]" by simp
  have "b' \<in> set ?v' \<and> b' \<in> {b, b\<lparr>b_status := InTransit\<rparr>}"
  proof (cases q)
    case True
    with assms(6) obtain p M' where
      u: "bm_upsert_bundle E (b\<lparr>b_status := InTransit\<rparr>) (M, W2) = Some (p, (M', W'))"
      and e': "e' = e\<lparr>bundle_manager := M'\<rparr>" and b': "b' = b\<lparr>b_status := InTransit\<rparr>"
      by (auto simp: route_onward_def sv g f bind_eq_Some_conv Let_def)
    have "\<not> (is_Data (b_kind b) \<and> has_ack (bm_view E (M, W2)) (b_id b))"
      using assms(5) unexpired_acks [of E t ?v "b_id b"] by (cases "b_kind b") (auto simp: v2 has_ack_iff)
    then have "b\<lparr>b_status := InTransit\<rparr> \<in> set (bm_view E (M', W'))"
      using upsert_stored [OF serde assms(2) u] v2 by (simp add: has_id_iff)
    then show ?thesis using e' b' by simp
  next
    case False
    with assms(6) have "e' = e\<lparr>bundle_manager := M\<rparr>" "b' = b" "W' = W2"
      by (auto simp: route_onward_def sv g f Let_def)
    then show ?thesis using v2 by simp
  qed
  then show "b' \<in> set ?v'" "b' \<in> {b, b\<lparr>b_status := InTransit\<rparr>}" by blast+
qed

text \<open>Only pending bundles of the store are written to the network.\<close>

lemma route_onward_frames:
  assumes "manager_ok E (eng_state e W)" and "route_onward E e b ps W = Some (e', b', W')"
  obtains fs where "frames W' = frames W @ fs"
    and "\<forall>x \<in> snd ` set fs. b_status x = Pending \<and> x \<in> insert b (set (bm_view E (eng_state e W)))"
proof -
  let ?v = "bm_view E (eng_state e W)"
  have serde: "serde_laws E" by (rule manager_okD(1) [OF assms(1)])
  from assms(2) obtain r m where sv: "bm_save_bundle E b (eng_state e W) = Some (r, m)"
    by (auto simp: route_onward_def bind_eq_Some_conv)
  obtain bs M W1 where g: "get_summary_vector E m = (bs, (M, W1))"
    by (cases "get_summary_vector E m") fastforce
  let ?pending = "filter (\<lambda>x. b_status x = Pending) bs"
  obtain q W2 where f: "forward_to_peers E e ?pending ps W1 = (q, W2)" by fastforce
  note s = mgr_ops_ok(3) [OF assms(1) sv]
  have g': "bm_all E m = (bs, (M, W1))"
    using g by (simp add: get_summary_vector_def bm_get_bundles_from_node_def bm_all_def)
  have bs: "set bs \<subseteq> insert b (set ?v)" using mgr.all_law [OF serde g'] s by auto
  have st: "bm_step (eng_state e W) (M, W1)"
    using s mgr_ops_ok(2) [OF _ g'] by (blast intro: mgr.step_trans)
  have ok1: "manager_ok E (M, W2)"
    using s mgr_ops_ok(2) [OF _ g'] net_step_view(2) [OF forward_to_peers_net_step [OF f]] by blast
  from bm_step_node_step [OF st, of "{}"] have fr1: "frames W1 = frames W" by (simp add: node_step_def)
  from forward_to_peers_net_step [OF f] obtain fs where fr2: "frames W2 = frames W1 @ fs"
    and fs: "snd ` set fs \<subseteq> set ?pending" by (auto simp: net_step_def)
  have "frames W' = frames W2"
  proof (cases q)
    case True
    with assms(2) obtain p M' where
      u: "bm_upsert_bundle E (b\<lparr>b_status := InTransit\<rparr>) (M, W2) = Some (p, (M', W'))"
      by (auto simp: route_onward_def sv g f bind_eq_Some_conv Let_def)
    from upsert_manager_ok [OF ok1 u] have "bm_step (M, W2) (M', W')" by blast
    from bm_step_node_step [OF this, of "{}"] show ?thesis by (simp add: node_step_def)
  next
    case False
    with assms(2) show ?thesis by (auto simp: route_onward_def sv g f Let_def)
  qed
  then show thesis using that [of fs] fr1 fr2 fs bs by auto
qed

section \<open>Forwarding on a working network\<close>

lemma anti_entropy_mem: "x \<in> set (anti_entropy bs sv) \<longleftrightarrow> x \<in> set bs \<and> b_id x \<notin> set sv"
  by (auto simp: anti_entropy_def)

lemma send_all_frames:
  assumes "net_ok E"
  shows "frames (send_all E e bs a W) = frames W @ map (Pair a) bs"
proof (induction bs arbitrary: W)
  case Nil
  then show ?case by simp
next
  case (Cons b bs)
  obtain ok V where s: "send_bundle E (eng_node_id e) b a W = (ok, V)" by fastforce
  from send_bundle_net_ok [OF assms s] Cons.IH show ?case by (simp add: s)
qed

lemma frames_mono: "net_step B W W' \<Longrightarrow> set (frames W) \<subseteq> set (frames W')"
  by (auto simp: net_step_def)

text \<open>The frames written between two worlds.\<close>

definition new_frames :: "world \<Rightarrow> world \<Rightarrow> (string \<times> Bundle) set" where
  "new_frames W W' = set (drop (length (frames W)) (frames W'))"

lemma new_frames_split: "net_step B W V \<Longrightarrow> net_step C V W' \<Longrightarrow> new_frames W W' = new_frames W V \<union> new_frames V W'"
  by (auto simp: new_frames_def net_step_def)

lemma new_frames_append [simp]: "frames W' = frames W @ fs \<Longrightarrow> new_frames W W' = set fs"
  by (simp add: new_frames_def)

lemma new_frames_none: "net_step {} W V \<Longrightarrow> new_frames W V = {}"
  by (auto simp: new_frames_def net_step_def)

lemma new_frames_subset: "new_frames W W' \<subseteq> set (frames W')"
  by (auto simp: new_frames_def dest: in_set_dropD)

lemma send_all_new: "new_frames W (send_all E e bs a W) \<subseteq> {a} \<times> set bs"
proof (induction bs arbitrary: W)
  case Nil
  then show ?case by (simp add: new_frames_none)
next
  case (Cons b bs)
  obtain ok V where s: "send_bundle E (eng_node_id e) b a W = (ok, V)" by fastforce
  obtain fs where "frames V = frames W @ fs" "set fs \<subseteq> {(a, b)}" using send_bundle_history(1) [OF s] by blast
  then have "new_frames W V \<subseteq> {(a, b)}" by simp
  with Cons.IH [of V] new_frames_split [OF send_bundle_net_step [OF s] send_all_net_step, of E e bs a]
  show ?case by (auto simp: s)
qed

text \<open>Between the ticks of two worlds, the peer has named the bundle in its summary vector.\<close>

definition named_by :: "'v env \<Rightarrow> RoutingEngine \<Rightarrow> PeerRecord \<Rightarrow> uuid \<Rightarrow> world \<Rightarrow> bool" where
  "named_by E e p i V \<longleftrightarrow> i \<in> set (fst (get_peer_summary_vector E e (n_address (p_node p)) (n_port (p_node p)) V))"

definition between :: "world \<Rightarrow> world \<Rightarrow> world set" where
  "between W W' = {V. tick W \<le> tick V \<and> tick V \<le> tick W'}"

lemma between_mono: "tick U \<le> tick W \<Longrightarrow> tick W' \<le> tick U' \<Longrightarrow> between W W' \<subseteq> between U U'"
  by (auto simp: between_def)

text \<open>
  One round of the loop over the peers: the peer gets what it has not named, the others what
  the rest of the loop writes.
\<close>

lemma forward_round:
  assumes "forward_to_peers E e bs (q # qs) W = (r, W')"
  obtains sv V U r' where "get_peer_summary_vector E e (n_address (p_node q)) (n_port (p_node q)) W = (sv, V)"
    and "U = send_all E e (anti_entropy bs sv) (peer_socket q) V" and "forward_to_peers E e bs qs U = (r', W')"
    and "new_frames W W' = new_frames V U \<union> new_frames U W'" and "tick W \<le> tick U" and "tick W \<le> tick W'"
    and "W \<in> between W W'"
proof -
  obtain sv V where sv: "get_peer_summary_vector E e (n_address (p_node q)) (n_port (p_node q)) W = (sv, V)"
    by fastforce
  let ?U = "send_all E e (anti_entropy bs sv) (peer_socket q) V"
  obtain r' where f: "forward_to_peers E e bs qs ?U = (r', W')"
    using assms by (auto simp: sv Let_def split: prod.splits)
  have s1: "net_step {} W V" using sv by (rule get_peer_sv_net_step)
  have s2: "net_step (set bs) V ?U" using send_all_net_step anti_entropy_subset by (rule net_step_mono)
  have s3: "net_step (set bs) ?U W'" using f by (rule forward_to_peers_net_step)
  have "new_frames W W' = new_frames V ?U \<union> new_frames ?U W'"
    using new_frames_split [OF s1 net_step_trans_same [OF s2 s3]] new_frames_split [OF s2 s3] new_frames_none [OF s1]
    by simp
  moreover have "tick W \<le> tick ?U" "tick W \<le> tick W'" using s1 s2 s3 by (simp_all add: net_step_def)
  ultimately show thesis using that [OF sv refl f] by (simp add: between_def)
qed

text \<open>Every connected peer gets every bundle that it has not named, and only such bundles.\<close>

lemma forward_reaches:
  assumes "net_ok E" and "forward_to_peers E e bs ps W = (r, W')" and "p \<in> set ps" and "x \<in> set bs"
    and "\<And>V. V \<in> between W W' \<Longrightarrow> \<not> named_by E e p (b_id x) V"
  shows "(peer_socket p, x) \<in> new_frames W W'"
  using assms(2,3,5)
proof (induction ps arbitrary: W r)
  case Nil
  then show ?case by simp
next
  case (Cons q qs)
  obtain sv V U r' where sv: "get_peer_summary_vector E e (n_address (p_node q)) (n_port (p_node q)) W = (sv, V)"
    and U: "U = send_all E e (anti_entropy bs sv) (peer_socket q) V" and f: "forward_to_peers E e bs qs U = (r', W')"
    and n: "new_frames W W' = new_frames V U \<union> new_frames U W'" and t: "tick W \<le> tick U" "tick W \<le> tick W'"
      "W \<in> between W W'" using forward_round [OF Cons.prems(1)] .
  show ?case
  proof (cases "p = q")
    case True
    have "b_id x \<notin> set sv" using Cons.prems(3) [OF t(3)] sv True by (simp add: named_by_def)
    then have "x \<in> set (anti_entropy bs sv)" using assms(4) by (simp add: anti_entropy_mem)
    then have "(peer_socket q, x) \<in> new_frames V U" by (simp add: U send_all_frames [OF assms(1)])
    then show ?thesis using n True by blast
  next
    case False
    have "between U W' \<subseteq> between W W'" using t(1) by (intro between_mono) simp_all
    with Cons.IH [OF f] Cons.prems(2,3) False n show ?thesis by auto
  qed
qed

lemma forward_named:
  assumes "forward_to_peers E e bs ps W = (r, W')" and "(a, x) \<in> new_frames W W'"
  shows "x \<in> set bs \<and> (\<exists>p \<in> set ps. a = peer_socket p \<and> (\<exists>V \<in> between W W'. \<not> named_by E e p (b_id x) V))"
  using assms
proof (induction ps arbitrary: W r)
  case Nil
  then show ?case by (simp add: new_frames_none)
next
  case (Cons q qs)
  obtain sv V U r' where sv: "get_peer_summary_vector E e (n_address (p_node q)) (n_port (p_node q)) W = (sv, V)"
    and U: "U = send_all E e (anti_entropy bs sv) (peer_socket q) V" and f: "forward_to_peers E e bs qs U = (r', W')"
    and n: "new_frames W W' = new_frames V U \<union> new_frames U W'" and t: "tick W \<le> tick U" "tick W \<le> tick W'"
      "W \<in> between W W'" using forward_round [OF Cons.prems(1)] .
  show ?case
  proof (cases "(a, x) \<in> new_frames V U")
    case True
    then have m: "a = peer_socket q" "x \<in> set (anti_entropy bs sv)" using send_all_new [of V E e] U by blast+
    then have "\<not> named_by E e q (b_id x) W" using sv by (simp add: anti_entropy_mem named_by_def)
    then show ?thesis using m t(3) by (auto simp: anti_entropy_mem)
  next
    case False
    have "between U W' \<subseteq> between W W'" using t(1) by (intro between_mono) simp_all
    with Cons.IH [OF f] Cons.prems(2) False n show ?thesis by auto
  qed
qed

text \<open>What \<open>route_onward\<close> writes is what its loop over the peers writes.\<close>

lemma route_onward_loop:
  assumes "manager_ok E (eng_state e W)" and "route_onward E e b ps W = Some (e', b', W')"
  obtains m bs W1 q W2 where "bm_save_bundle E b (eng_state e W) = Some m" and "get_summary_vector E (snd m) = (bs, W1)"
    and "forward_to_peers E e (filter (\<lambda>x. b_status x = Pending) bs) ps (snd W1) = (q, W2)"
    and "new_frames W W' = new_frames (snd W1) W2" and "between (snd W1) W2 \<subseteq> between W W'"
proof -
  from assms(2) obtain r m where sv: "bm_save_bundle E b (eng_state e W) = Some (r, m)"
    by (auto simp: route_onward_def bind_eq_Some_conv)
  obtain bs M W1 where g: "get_summary_vector E m = (bs, (M, W1))"
    by (cases "get_summary_vector E m") fastforce
  obtain q W2 where f: "forward_to_peers E e (filter (\<lambda>x. b_status x = Pending) bs) ps W1 = (q, W2)" by fastforce
  note s = mgr_ops_ok(3) [OF assms(1) sv]
  have g': "bm_all E m = (bs, (M, W1))"
    using g by (simp add: get_summary_vector_def bm_get_bundles_from_node_def bm_all_def)
  have st: "bm_step (eng_state e W) (M, W1)" and ok: "manager_ok E (M, W1)"
    using s mgr_ops_ok(2) [OF _ g'] by (blast intro: mgr.step_trans)+
  from bm_step_node_step [OF st, of "{}"] have fr1: "frames W1 = frames W" "tick W \<le> tick W1"
    by (simp_all add: node_step_def)
  have ok2: "manager_ok E (M, W2)" using ok net_step_view(2) [OF forward_to_peers_net_step [OF f]] by blast
  have "bm_step (M, W2) (bundle_manager e', W')"
  proof (cases q)
    case True
    with assms(2) obtain p M' where
      u: "bm_upsert_bundle E (b\<lparr>b_status := InTransit\<rparr>) (M, W2) = Some (p, (M', W'))" and "e' = e\<lparr>bundle_manager := M'\<rparr>"
      by (auto simp: route_onward_def sv g f bind_eq_Some_conv Let_def)
    with upsert_manager_ok [OF ok2 u] show ?thesis by simp
  next
    case False
    with assms(2) show ?thesis by (auto simp: route_onward_def sv g f Let_def mgr.step_refl)
  qed
  from bm_step_node_step [OF this, of "{}"] have fr2: "frames W' = frames W2" "tick W2 \<le> tick W'"
    by (simp_all add: node_step_def)
  have "between W1 W2 \<subseteq> between W W'" using fr1 fr2 by (intro between_mono) simp_all
  moreover have "new_frames W W' = new_frames W1 W2" by (simp add: new_frames_def fr1 fr2)
  ultimately show thesis using that [OF sv, of bs "(M, W1)"] g f by simp
qed

lemma route_onward_reaches:
  assumes "manager_ok E (eng_state e W)" and "io_ok E" and "net_ok E"
    and "length (bm_view E (eng_state e W)) < bm_cap (eng_state e W)"
    and "\<not> has_id (bm_view E (eng_state e W)) (b_id b)"
    and "\<not> (is_Data (b_kind b) \<and> has_ack (bm_view E (eng_state e W)) (b_id b))" and "b_status b = Pending"
    and "route_onward E e b ps W = Some (e', b', W')" and "p \<in> set ps"
    and "\<And>V. V \<in> between W W' \<Longrightarrow> \<not> named_by E e p (b_id b) V"
  shows "(peer_socket p, b) \<in> new_frames W W'"
proof -
  have serde: "serde_laws E" by (rule manager_okD(1) [OF assms(1)])
  obtain m bs W1 q W2 where sv: "bm_save_bundle E b (eng_state e W) = Some m" and g: "get_summary_vector E (snd m) = (bs, W1)"
    and f: "forward_to_peers E e (filter (\<lambda>x. b_status x = Pending) bs) ps (snd W1) = (q, W2)"
    and n: "new_frames W W' = new_frames (snd W1) W2" "between (snd W1) W2 \<subseteq> between W W'"
    using route_onward_loop [OF assms(1,8)] .
  obtain t where "bm_view E (snd m) = unexpired E t (bm_view E (eng_state e W)) @ [b]"
    using save_view_exact [OF serde assms(2), of b "eng_state e W" "fst m" "snd m"] sv accepted [OF assms(4-6), where E = E]
    by (metis prod.collapse)
  then have "b \<in> set (filter (\<lambda>x. b_status x = Pending) bs)" using summary_exact(1) [OF serde assms(2) g] assms(7) by simp
  from forward_reaches [OF assms(3) f assms(9) this] assms(10) n show ?thesis by blast
qed

lemma route_onward_named:
  assumes "manager_ok E (eng_state e W)" and "route_onward E e b ps W = Some (e', b', W')" and "(a, x) \<in> new_frames W W'"
  shows "\<exists>p \<in> set ps. a = peer_socket p \<and> (\<exists>V \<in> between W W'. \<not> named_by E e p (b_id x) V)"
proof -
  obtain m bs W1 q W2 where "bm_save_bundle E b (eng_state e W) = Some m" "get_summary_vector E (snd m) = (bs, W1)"
    and f: "forward_to_peers E e (filter (\<lambda>x. b_status x = Pending) bs) ps (snd W1) = (q, W2)"
    and n: "new_frames W W' = new_frames (snd W1) W2" "between (snd W1) W2 \<subseteq> between W W'"
    using route_onward_loop [OF assms(1,2)] .
  from forward_named [OF f, of a x] assms(3) n show ?thesis by blast
qed

section \<open>The retry loop\<close>

lemma retry_send_ids:
  "retry_send E e bs a acc W = (acc', W') \<Longrightarrow> set acc \<subseteq> set acc' \<and> set acc' \<subseteq> set acc \<union> b_id ` set bs \<and>
     (distinct acc \<longrightarrow> distinct acc')"
proof (induction bs arbitrary: acc W)
  case Nil
  then show ?case by simp
next
  case (Cons b bs)
  obtain ok V where s: "send_bundle E (eng_node_id e) b a W = (ok, V)" by fastforce
  let ?acc = "if ok \<and> b_id b \<notin> set acc then acc @ [b_id b] else acc"
  from Cons.prems have "retry_send E e bs a ?acc V = (acc', W')" by (simp add: s)
  from Cons.IH [OF this] show ?case by (auto split: if_splits)
qed

lemma retry_peers_ids:
  "retry_peers E e bs ps acc W = (acc', W') \<Longrightarrow> set acc' \<subseteq> set acc \<union> b_id ` set bs \<and>
     (distinct acc \<longrightarrow> distinct acc')"
proof (induction ps arbitrary: acc W)
  case Nil
  then show ?case by simp
next
  case (Cons p ps)
  obtain sv V where sv: "get_peer_summary_vector E e (n_address (p_node p)) (n_port (p_node p)) W = (sv, V)"
    by fastforce
  obtain acc1 U where u: "retry_send E e (anti_entropy bs sv) (peer_socket p) acc V = (acc1, U)"
    by fastforce
  have "retry_peers E e bs ps acc1 U = (acc', W')" using Cons.prems by (simp add: sv u Let_def)
  from Cons.IH [OF this] retry_send_ids [OF u] anti_entropy_subset [of bs sv] show ?case by blast
qed

text \<open>Marking as in transit touches exactly the bundles sent, unless an acknowledgement came.\<close>

definition in_transit :: "uuid set \<Rightarrow> Bundle list \<Rightarrow> Bundle list" where
  "in_transit I bs = map (\<lambda>b. if b_id b \<in> I \<and> \<not> (is_Data (b_kind b) \<and> has_ack bs (b_id b))
     then b\<lparr>b_status := InTransit\<rparr> else b) bs"

lemma replace_as_map:
  assumes "distinct (map b_id bs)" and "x \<in> set bs" and "b_id y = b_id x"
  shows "replace_bundle y bs = map (\<lambda>b. if b_id b = b_id x then y else b) bs"
  using assms(1,2)
proof (induction bs)
  case Nil
  then show ?case by simp
next
  case (Cons a bs)
  show ?case
  proof (cases "b_id a = b_id x")
    case True
    with Cons.prems have "b_id x \<notin> b_id ` set bs" by simp
    then have "map (\<lambda>b. if b_id b = b_id x then y else b) bs = bs"
      by (intro map_idI) (auto simp: image_iff)
    then show ?thesis using True assms(3) by (simp add: replace_bundle_def)
  next
    case False
    with Cons show ?thesis using assms(3) by (auto simp: replace_bundle_def)
  qed
qed

lemma has_ack_kinds: "has_ack bs d \<longleftrightarrow> Ack d \<in> set (map b_kind bs)"
  by (force simp: has_ack_iff)

lemma in_transit_maps [simp]:
  "in_transit {} bs = bs" "map b_id (in_transit I bs) = map b_id bs"
  "map b_kind (in_transit I bs) = map b_kind bs"
  by (auto simp: in_transit_def)

lemma has_ack_in_transit [simp]: "has_ack (in_transit I bs) d = has_ack bs d"
  unfolding has_ack_kinds by (simp only: in_transit_maps)

lemma in_transit_insert: "in_transit I (in_transit {i} bs) = in_transit (insert i I) bs"
proof -
  let ?f = "\<lambda>I b. if b_id b \<in> I \<and> \<not> (is_Data (b_kind b) \<and> has_ack bs (b_id b))
    then b\<lparr>b_status := InTransit\<rparr> else b"
  have "in_transit I (in_transit {i} bs) = map (?f I) (in_transit {i} bs)"
    by (simp add: in_transit_def [of I "in_transit {i} bs"])
  also have "\<dots> = map (?f I \<circ> ?f {i}) bs" by (simp add: in_transit_def [of "{i}"])
  also have "\<dots> = in_transit (insert i I) bs" by (auto simp: in_transit_def)
  finally show ?thesis .
qed

lemma in_transit_single:
  assumes "distinct (map b_id v)" and "b \<in> set v"
  shows "in_transit {b_id b} v =
    (if is_Data (b_kind b) \<and> has_ack v (b_id b) then v else replace_bundle (b\<lparr>b_status := InTransit\<rparr>) v)"
proof -
  let ?i = "b_id b" and ?b = "b\<lparr>b_status := InTransit\<rparr>"
  let ?f = "\<lambda>y. if b_id y \<in> {?i} \<and> \<not> (is_Data (b_kind y) \<and> has_ack v (b_id y))
    then y\<lparr>b_status := InTransit\<rparr> else y"
  have eq: "y = b" if "y \<in> set v" "b_id y = ?i" for y
    using that assms by (metis find_id_eq option.inject)
  show ?thesis
  proof (cases "is_Data (b_kind b) \<and> has_ack v ?i")
    case True
    have "?f y = y" if "y \<in> set v" for y
      using that eq [of y] True by (cases "b_id y = ?i") simp_all
    then have "in_transit {?i} v = v" unfolding in_transit_def by (rule map_idI)
    then show ?thesis using True by simp
  next
    case False
    have "?f y = (if b_id y = ?i then ?b else y)" if "y \<in> set v" for y
      using that eq [of y] False by (cases "b_id y = ?i") simp_all
    then have "in_transit {?i} v = map (\<lambda>y. if b_id y = ?i then ?b else y) v"
      unfolding in_transit_def by (intro map_cong refl)
    also have "\<dots> = replace_bundle ?b v" using replace_as_map [OF assms, of ?b] by simp
    finally show ?thesis using False by (simp only: if_False)
  qed
qed

lemma mark_in_transit_exact:
  assumes "serde_laws E" and "io_ok E" and "distinct (map b_id (bm_view E m))"
    and "mark_in_transit E is m = Some m'"
  shows "bm_view E m' = in_transit (set is) (bm_view E m) \<and> bm_step m m'"
  using assms(3,4)
proof (induction "is" arbitrary: m)
  case Nil
  then show ?case by (simp add: mgr.step_refl)
next
  case (Cons i "is")
  let ?v = "bm_view E m"
  obtain x m1 where g: "bm_get E i m = (x, m1)" by (cases "bm_get E i m")
  have x: "x = find_id i ?v" using mgr.get_exact [OF conjI [OF assms(1,2)] g] by simp
  from mgr.get_law [OF assms(1) g] have v1: "bm_view E m1 = ?v" and s1: "bm_step m m1" by simp_all
  obtain m2 where v2: "bm_view E m2 = in_transit {i} ?v" and s2: "bm_step m m2"
    and r: "mark_in_transit E is m2 = Some m'"
  proof (cases x)
    case None
    then have "\<not> has_id ?v i" using x find_id_None [of i ?v] by simp
    then have "in_transit {i} ?v = ?v"
      unfolding in_transit_def by (intro map_idI) (auto simp: has_id_iff image_iff)
    then show thesis using that [of m1] v1 s1 Cons.prems(2) None by (simp add: g)
  next
    case (Some b)
    then have b: "b \<in> set ?v" "b_id b = i" using x find_id_Some [of i ?v b] by simp_all
    let ?b = "b\<lparr>b_status := InTransit\<rparr>"
    from Cons.prems(2) Some obtain q m2 where u: "bm_upsert_bundle E ?b m1 = Some (q, m2)"
      and r: "mark_in_transit E is m2 = Some m'" by (auto simp: g bind_eq_Some_conv)
    have h: "has_id ?v i" using b by (auto simp: has_id_iff)
    then have "bm_view E m2 = (if is_Data (b_kind b) \<and> has_ack ?v i then ?v else replace_bundle ?b ?v)"
      using upsert_view_exact(1) [OF assms(1,2) u] b by (simp add: v1 rejects_def)
    also have "\<dots> = in_transit {i} ?v"
      using in_transit_single [OF Cons.prems(1) b(1)] b(2) by simp
    finally show thesis
      using that r mgr.step_trans [OF s1 upsert_view_exact(3) [OF assms(1,2) u]] by blast
  qed
  have "distinct (map b_id (bm_view E m2))" using Cons.prems(1) by (simp add: v2)
  from Cons.IH [OF this r] v2 s2 show ?case
    using mgr.step_trans [OF s2] by (simp add: in_transit_insert)
qed

end
