(* ===== verification/Engine_Loops.thy ===== *)
theory Engine_Loops
  imports Engine_Exact
begin

text \<open>
  The periodic work of a node: \<open>retry_unsynced_bundles\<close> of the engine and
  \<open>drop_expired_bundles\<close> of \<open>routing/scf.rs\<close>.
\<close>

section \<open>Retrying\<close>

text \<open>The loops write what the loops of \<open>route_bundle\<close> write.\<close>

lemma retry_send_world: "snd (retry_send E e bs a acc W) = send_all E e bs a W"
  by (induction bs arbitrary: acc W) (simp_all split: prod.splits)

lemma retry_peers_world: "snd (retry_peers E e bs ps acc W) = snd (forward_to_peers E e bs ps W)"
proof (induction ps arbitrary: acc W)
  case (Cons p ps)
  obtain sv V where sv: "get_peer_summary_vector E e (n_address (p_node p)) (n_port (p_node p)) W = (sv, V)"
    by fastforce
  obtain acc1 U where u: "retry_send E e (anti_entropy bs sv) (peer_socket p) acc V = (acc1, U)" by fastforce
  then have "send_all E e (anti_entropy bs sv) (peer_socket p) V = U" using retry_send_world by (metis snd_conv)
  then show ?case using Cons.IH [of acc1 U] by (simp add: sv u Let_def split: prod.splits)
qed simp

text \<open>The identifiers noted are those of the frames that were answered.\<close>

definition new_answers :: "world \<Rightarrow> world \<Rightarrow> (string \<times> Bundle) set" where
  "new_answers W W' = set (drop (length (answered W)) (answered W'))"

lemma new_answers_split: "net_step B W V \<Longrightarrow> net_step C V W' \<Longrightarrow> new_answers W W' = new_answers W V \<union> new_answers V W'"
  by (auto simp: new_answers_def net_step_def grows_def)

lemma new_answers_none: "net_step {} W V \<Longrightarrow> new_answers W V = {}"
  by (auto simp: new_answers_def net_step_def)

lemma send_bundle_answer:
  assumes "send_bundle E i b a W = (r, W')"
  shows "new_answers W W' = (if r then {(a, b)} else {})" and "new_answers W W' \<subseteq> new_frames W W'"
    and "r \<Longrightarrow> new_frames W W' = new_answers W W'"
  using send_bundle_history [OF assms] by (auto simp: new_answers_def)

definition always_answered :: "'v env \<Rightarrow> RoutingEngine \<Rightarrow> bool" where
  "always_answered E e \<longleftrightarrow> (\<forall>b a V. fst (send_bundle E (eng_node_id e) b a V))"

lemma retry_send_answers:
  "retry_send E e bs a acc W = (acc', W') \<Longrightarrow> set acc' = set acc \<union> b_id ` snd ` new_answers W W' \<and>
     new_answers W W' \<subseteq> new_frames W W' \<and> (always_answered E e \<longrightarrow> new_frames W W' = new_answers W W')"
proof (induction bs arbitrary: acc W)
  case Nil
  then show ?case by (simp add: new_answers_none new_frames_none)
next
  case (Cons b bs)
  obtain ok V where s: "send_bundle E (eng_node_id e) b a W = (ok, V)" by fastforce
  let ?acc = "if ok \<and> b_id b \<notin> set acc then acc @ [b_id b] else acc"
  have r: "retry_send E e bs a ?acc V = (acc', W')" using Cons.prems by (simp add: s)
  note n = send_bundle_net_step [OF s] retry_send_net_step [OF r]
  have k: "always_answered E e \<Longrightarrow> ok" using s by (metis always_answered_def fst_conv)
  from Cons.IH [OF r] send_bundle_answer [OF s] k
  show ?case unfolding new_answers_split [OF n] new_frames_split [OF n] by auto
qed

lemma retry_peers_answers:
  "retry_peers E e bs ps acc W = (acc', W') \<Longrightarrow> set acc' = set acc \<union> b_id ` snd ` new_answers W W' \<and>
     new_answers W W' \<subseteq> new_frames W W' \<and> (always_answered E e \<longrightarrow> new_frames W W' = new_answers W W')"
proof (induction ps arbitrary: acc W)
  case Nil
  then show ?case by (simp add: new_answers_none new_frames_none)
next
  case (Cons p ps)
  obtain sv V where sv: "get_peer_summary_vector E e (n_address (p_node p)) (n_port (p_node p)) W = (sv, V)"
    by fastforce
  obtain acc1 U where u: "retry_send E e (anti_entropy bs sv) (peer_socket p) acc V = (acc1, U)"
    by fastforce
  have r: "retry_peers E e bs ps acc1 U = (acc', W')" using Cons.prems by (simp add: sv u Let_def)
  have n1: "net_step {} W V" using sv by (rule get_peer_sv_net_step)
  note n2 = retry_send_net_step [OF u] and n3 = retry_peers_net_step [OF r]
  have n23: "net_step (set (anti_entropy bs sv) \<union> set bs) V W'" using n2 n3 by (rule net_step_trans)
  have "new_answers W W' = new_answers V U \<union> new_answers U W'" "new_frames W W' = new_frames V U \<union> new_frames U W'"
    using new_answers_split [OF n1 n23] new_answers_split [OF n2 n3] new_answers_none [OF n1]
      new_frames_split [OF n1 n23] new_frames_split [OF n2 n3] new_frames_none [OF n1] by simp_all
  with Cons.IH [OF r] retry_send_answers [OF u] show ?case by auto
qed

definition retryable :: "Bundle \<Rightarrow> bool" where
  "retryable b \<longleftrightarrow> b_status b = Pending \<or> b_status b = InTransit"

lemma named_by_manager [simp]: "named_by E (e\<lparr>bundle_manager := M\<rparr>) p i V = named_by E e p i V"
  by (simp add: named_by_def get_peer_summary_vector_def)

lemma always_answered_manager [simp]: "always_answered E (e\<lparr>bundle_manager := M\<rparr>) = always_answered E e"
  by (simp add: always_answered_def)

text \<open>A retry round whose registry call is done, on a store with bundles to send.\<close>

lemma retry_round_exact:
  assumes "manager_ok E (eng_state e W)" and "io_ok E" and "get_summary_vector E (eng_state e W) = (sv, (M, W2))"
    and "retry_peers E (e\<lparr>bundle_manager := M\<rparr>) (filter retryable sv) ps [] W2 = (sent_ids, W3)"
    and "mark_in_transit E sent_ids (M, W3) = Some (M', W')"
  defines "v \<equiv> bm_view E (eng_state e W)"
  shows "bm_view E (M', W') = in_transit (b_id ` snd ` new_answers W W') v"
    and "new_answers W W' \<subseteq> new_frames W W'" and "snd ` new_frames W W' \<subseteq> {x \<in> set v. retryable x}"
    and "always_answered E e \<Longrightarrow> new_frames W W' = new_answers W W'"
    and "net_ok E \<Longrightarrow> p \<in> set ps \<Longrightarrow> x \<in> set v \<Longrightarrow> retryable x \<Longrightarrow>
      (\<And>V. V \<in> between W W' \<Longrightarrow> \<not> named_by E e p (b_id x) V) \<Longrightarrow> (peer_socket p, x) \<in> new_frames W W'"
    and "tick W \<le> tick W'"
proof -
  have serde: "serde_laws E" by (rule manager_okD(1) [OF assms(1)])
  note sx = summary_exact [OF serde assms(2,3), folded v_def]
  have q: "frames W2 = frames W" "answered W2 = answered W" "tick W \<le> tick W2"
    using sx(3) by (simp_all add: bm_step_def bm_store_def store_step_def store_frame_def)
  note n3 = retry_peers_net_step [OF assms(4)]
  have v3: "bm_view E (M, W3) = v" using net_step_view(1) [OF n3, where M = M and E = E] sx by simp
  have "distinct (map b_id v)" using manager_okD(2) [OF assms(1)] by (simp add: v_def)
  with mark_in_transit_exact [OF serde assms(2) _ assms(5)] v3
  have v': "bm_view E (M', W') = in_transit (set sent_ids) v" and st: "bm_step (M, W3) (M', W')" by simp_all
  have q': "frames W' = frames W3" "answered W' = answered W3" "tick W3 \<le> tick W'"
    using st by (simp_all add: bm_step_def bm_store_def store_step_def store_frame_def)
  have n: "new_frames W W' = new_frames W2 W3" "new_answers W W' = new_answers W2 W3"
    by (simp_all add: new_frames_def new_answers_def q q')
  note a = retry_peers_answers [OF assms(4)]
  show "bm_view E (M', W') = in_transit (b_id ` snd ` new_answers W W') v" using v' a n by simp
  show "new_answers W W' \<subseteq> new_frames W W'" "always_answered E e \<Longrightarrow> new_frames W W' = new_answers W W'"
    using a n by simp_all
  from n3 obtain fs where "frames W3 = frames W2 @ fs" "snd ` set fs \<subseteq> set (filter retryable sv)"
    unfolding net_step_def by blast
  then have "snd ` new_frames W2 W3 \<subseteq> set (filter retryable sv)" by simp
  then show "snd ` new_frames W W' \<subseteq> {x \<in> set v. retryable x}" using sx(1) n by auto
  have "tick W2 \<le> tick W3" using n3 by (simp add: net_step_def)
  then show "tick W \<le> tick W'" using q q' by simp
  have b: "between W2 W3 \<subseteq> between W W'" using q q' by (intro between_mono) simp_all
  obtain r where f: "forward_to_peers E (e\<lparr>bundle_manager := M\<rparr>) (filter retryable sv) ps W2 = (r, W3)"
    using retry_peers_world [of E "e\<lparr>bundle_manager := M\<rparr>" "filter retryable sv" ps "[]" W2] assms(4) by (metis prod.collapse snd_conv)
  show "(peer_socket p, x) \<in> new_frames W W'" if "net_ok E" "p \<in> set ps" "x \<in> set v" "retryable x"
    "\<And>V. V \<in> between W W' \<Longrightarrow> \<not> named_by E e p (b_id x) V"
    using forward_reaches [OF that(1) f that(2), of x] that sx(1) b n(1) by auto
qed

lemma retry_exact:
  assumes "manager_ok E (eng_state e W)" and "io_ok E"
    and "\<And>is. net_step {} W (snd (query is W))"
    and "retry_unsynced_bundles query E e W = Some (e', W')"
  defines "v \<equiv> bm_view E (eng_state e W)"
  shows "bm_view E (eng_state e' W') = in_transit (b_id ` snd ` new_answers W W') v"
    and "new_answers W W' \<subseteq> new_frames W W'" and "snd ` new_frames W W' \<subseteq> {x \<in> set v. retryable x}"
    and "always_answered E e \<Longrightarrow> new_frames W W' = new_answers W W'"
    and "net_ok E \<Longrightarrow> p \<in> set (fst (query (eng_peers e) W)) \<Longrightarrow> n_id (p_node p) \<noteq> eng_node_id e \<Longrightarrow>
      x \<in> set v \<Longrightarrow> retryable x \<Longrightarrow> (\<And>V. V \<in> between W W' \<Longrightarrow> \<not> named_by E e p (b_id x) V) \<Longrightarrow>
      (peer_socket p, x) \<in> new_frames W W'"
proof -
  have serde: "serde_laws E" by (rule manager_okD(1) [OF assms(1)])
  obtain ps W1 where q: "query (eng_peers e) W = (ps, W1)" by fastforce
  have n1: "net_step {} W W1" using assms(3) [of "eng_peers e"] by (simp add: q)
  have v1: "bm_view E (eng_state e W1) = v" using net_step_view(1) [OF n1] by (simp add: v_def)
  have ok1: "manager_ok E (eng_state e W1)" using net_step_view(2) [OF n1] assms(1) by blast
  have fr1: "frames W1 = frames W" "answered W1 = answered W" "tick W \<le> tick W1" using n1 by (auto simp: net_step_def)
  let ?ps = "filter (\<lambda>p. n_id (p_node p) \<noteq> eng_node_id e) ps"
  obtain sv M W2 where g: "get_summary_vector E (eng_state e W1) = (sv, (M, W2))"
    by (cases "get_summary_vector E (eng_state e W1)") fastforce
  note sx = summary_exact [OF serde assms(2) g, unfolded v1]
  have fr2: "frames W2 = frames W1" "answered W2 = answered W1"
    using sx(3) by (simp_all add: bm_step_def bm_store_def store_step_def store_frame_def)
  have f: "(\<lambda>b. b_status b = Pending \<or> b_status b = InTransit) = retryable" by (auto simp: retryable_def)
  consider (idle) "?ps = [] \<or> filter retryable sv = []"
      "new_frames W W' = {}" "new_answers W W' = {}" "bm_view E (eng_state e' W') = v"
    | (busy) sent_ids W3 M' where "retry_peers E (e\<lparr>bundle_manager := M\<rparr>) (filter retryable sv) ?ps [] W2 = (sent_ids, W3)"
      "mark_in_transit E sent_ids (M, W3) = Some (M', W')" "e' = e\<lparr>bundle_manager := M'\<rparr>"
  proof (cases "?ps = [] \<or> filter retryable sv = []")
    case True
    with assms(4) have "(e' = e \<and> W' = W1) \<or> (e' = e\<lparr>bundle_manager := M\<rparr> \<and> W' = W2)"
      by (cases "?ps = []") (simp_all add: retry_unsynced_bundles_def q g f)
    then have "new_frames W W' = {}" "new_answers W W' = {}" "bm_view E (eng_state e' W') = v"
      using fr1 fr2 sx(2) v1 by (auto simp: new_frames_def new_answers_def)
    with True show thesis by (rule that(1))
  next
    case False
    obtain sent_ids W3 where r: "retry_peers E (e\<lparr>bundle_manager := M\<rparr>) (filter retryable sv) ?ps [] W2 = (sent_ids, W3)" by fastforce
    with assms(4) False obtain M' where "mark_in_transit E sent_ids (M, W3) = Some (M', W')" "e' = e\<lparr>bundle_manager := M'\<rparr>"
      by (auto simp: retry_unsynced_bundles_def q g f Let_def bind_eq_Some_conv)
    with r show thesis by (rule that(2))
  qed
  then have "bm_view E (eng_state e' W') = in_transit (b_id ` snd ` new_answers W W') v \<and>
    new_answers W W' \<subseteq> new_frames W W' \<and> snd ` new_frames W W' \<subseteq> {x \<in> set v. retryable x} \<and>
    (always_answered E e \<longrightarrow> new_frames W W' = new_answers W W') \<and>
    (net_ok E \<and> p \<in> set (fst (query (eng_peers e) W)) \<and> n_id (p_node p) \<noteq> eng_node_id e \<and>
      x \<in> set v \<and> retryable x \<and> (\<forall>V \<in> between W W'. \<not> named_by E e p (b_id x) V) \<longrightarrow>
      (peer_socket p, x) \<in> new_frames W W')"
  proof cases
    case idle
    from idle(1) have "\<not> (p \<in> set (fst (query (eng_peers e) W)) \<and> n_id (p_node p) \<noteq> eng_node_id e \<and>
        x \<in> set v \<and> retryable x)" by (auto simp: q sx(1) filter_empty_conv)
    then show ?thesis using idle(2-4) by auto
  next
    case busy
    note x = retry_round_exact [OF ok1 assms(2) g busy(1,2), unfolded v1]
    have n: "new_frames W W' = new_frames W1 W'" "new_answers W W' = new_answers W1 W'"
      by (simp_all add: new_frames_def new_answers_def fr1)
    have b: "between W1 W' \<subseteq> between W W'" using fr1 by (intro between_mono) simp_all
    have "(peer_socket p, x) \<in> new_frames W1 W'" if "net_ok E" "p \<in> set ps" "n_id (p_node p) \<noteq> eng_node_id e"
      "x \<in> set v" "retryable x" "\<forall>V \<in> between W W'. \<not> named_by E e p (b_id x) V"
      using that b by (intro x(5)) auto
    with x(1-4) busy(3) n show ?thesis by (simp add: q)
  qed
  then show "bm_view E (eng_state e' W') = in_transit (b_id ` snd ` new_answers W W') v"
    and "new_answers W W' \<subseteq> new_frames W W'" and "snd ` new_frames W W' \<subseteq> {x \<in> set v. retryable x}"
    and "always_answered E e \<Longrightarrow> new_frames W W' = new_answers W W'"
    and "net_ok E \<Longrightarrow> p \<in> set (fst (query (eng_peers e) W)) \<Longrightarrow> n_id (p_node p) \<noteq> eng_node_id e \<Longrightarrow>
      x \<in> set v \<Longrightarrow> retryable x \<Longrightarrow> (\<And>V. V \<in> between W W' \<Longrightarrow> \<not> named_by E e p (b_id x) V) \<Longrightarrow>
      (peer_socket p, x) \<in> new_frames W W'" by blast+
qed

text \<open>In any environment a retry round stays within the bundles of the node.\<close>

lemma mark_stays:
  assumes "confined E D m" and "status_closed D" and "mark_in_transit E is m = Some m'"
  shows "stays E D m m'"
  using assms(1,3)
proof (induction "is" arbitrary: m)
  case Nil
  then show ?case by (simp add: stays_refl)
next
  case (Cons i "is")
  obtain x m1 where g: "bm_get E i m = (x, m1)" by (cases "bm_get E i m")
  have s1: "stays E D m m1" by (rule confined_get [OF Cons.prems(1) g])
  show ?case
  proof (cases x)
    case None
    with Cons.prems(2) g have "mark_in_transit E is m1 = Some m'" by simp
    from stays_trans [OF s1 Cons.IH [OF stays_confined [OF s1] this]] show ?thesis .
  next
    case (Some b)
    have "manager_ok E m" using Cons.prems(1) by (simp add: confined_def)
    from mgr.get_law [OF manager_okD(1) [OF this] g] Some have "b \<in> set (bm_view E m)"
      using find_id_Some [of i "bm_view E m" b] by auto
    then have b: "b\<lparr>b_status := InTransit\<rparr> \<in> D"
      using Cons.prems(1) status_closedD [OF assms(2)] by (auto simp: confined_def)
    from Cons.prems(2) g Some obtain r m2 where u: "bm_upsert_bundle E (b\<lparr>b_status := InTransit\<rparr>) m1 = Some (r, m2)"
      and rest: "mark_in_transit E is m2 = Some m'" by (auto simp: bind_eq_Some_conv)
    from stays_trans [OF s1 confined_upsert [OF stays_confined [OF s1] b u]] have s2: "stays E D m m2" .
    from stays_trans [OF s2 Cons.IH [OF stays_confined [OF s2] rest]] show ?thesis .
  qed
qed

lemma retry_stays:
  assumes "confined E D (eng_state e W)" and "status_closed D"
    and "\<And>is. net_step {} W (snd (query is W))"
    and "retry_unsynced_bundles query E e W = Some (e', W')"
  shows "stays E D (eng_state e W) (eng_state e' W')" and "same_config e e'"
proof -
  obtain ps W1 where q: "query (eng_peers e) W = (ps, W1)" by fastforce
  have n1: "net_step {} W W1" using assms(3) [of "eng_peers e"] by (simp add: q)
  from confined_net [OF assms(1) n1] have s1: "stays E D (eng_state e W) (eng_state e W1)" by simp
  let ?ps = "filter (\<lambda>p. n_id (p_node p) \<noteq> eng_node_id e) ps"
  have "stays E D (eng_state e W) (eng_state e' W') \<and> same_config e e'"
  proof (cases "?ps = []")
    case True
    with assms(4) have "e' = e" "W' = W1" by (simp_all add: retry_unsynced_bundles_def q)
    then show ?thesis using s1 by simp
  next
    case ps: False
    obtain sv M W2 where g: "get_summary_vector E (eng_state e W1) = (sv, (M, W2))"
      by (cases "get_summary_vector E (eng_state e W1)") fastforce
    note all = confined_all [OF stays_confined [OF s1] g]
    from stays_trans [OF s1 all(1)] have s2: "stays E D (eng_state e W) (M, W2)" .
    let ?r = "filter (\<lambda>b. b_status b = Pending \<or> b_status b = InTransit) sv"
    show ?thesis
    proof (cases "?r = []")
      case True
      with assms(4) ps have "e' = e\<lparr>bundle_manager := M\<rparr>" "W' = W2"
        by (simp_all add: retry_unsynced_bundles_def q g)
      then show ?thesis using s2 by simp
    next
      case False
      obtain sent_ids W3 where r: "retry_peers E (e\<lparr>bundle_manager := M\<rparr>) ?r ?ps [] W2 = (sent_ids, W3)" by fastforce
      with assms(4) ps False obtain M' where m: "mark_in_transit E sent_ids (M, W3) = Some (M', W')"
        and e': "e' = e\<lparr>bundle_manager := M'\<rparr>"
        by (auto simp: retry_unsynced_bundles_def q g Let_def bind_eq_Some_conv)
      have "set ?r \<subseteq> D" using all(2) by auto
      from stays_trans [OF s2 confined_net [OF stays_confined [OF s2] retry_peers_net_step [OF r] this]]
      have s3: "stays E D (eng_state e W) (M, W3)" .
      from stays_trans [OF s3 mark_stays [OF stays_confined [OF s3] assms(2) m]] e' show ?thesis by simp
    qed
  qed
  then show "stays E D (eng_state e W) (eng_state e' W')" "same_config e e'" by blast+
qed

text \<open>A retry round returns.\<close>

lemma mark_total:
  assumes "manager_ok E m"
  shows "mark_in_transit E is m \<noteq> None"
  using assms
proof (induction "is" arbitrary: m)
  case Nil
  then show ?case by simp
next
  case (Cons i "is")
  obtain x m1 where g: "bm_get E i m = (x, m1)" by (cases "bm_get E i m")
  have ok: "manager_ok E m1" using mgr_ops_ok(1) [OF Cons.prems g] by blast
  show ?case
  proof (cases x)
    case None
    then show ?thesis using Cons.IH [OF ok] g by simp
  next
    case (Some b)
    obtain r m2 where u: "bm_upsert_bundle E (b\<lparr>b_status := InTransit\<rparr>) m1 = Some (r, m2)"
      using upsert_total [OF ok] by (metis not_None_eq surj_pair)
    have "manager_ok E m2" using upsert_manager_ok [OF ok u] by blast
    from Cons.IH [OF this] show ?thesis using g Some u by simp
  qed
qed

lemma retry_total:
  assumes "manager_ok E (eng_state e W)" and "\<And>is. net_step {} W (snd (query is W))"
  shows "retry_unsynced_bundles query E e W \<noteq> None"
proof -
  obtain ps W1 where q: "query (eng_peers e) W = (ps, W1)" by fastforce
  have "net_step {} W W1" using assms(2) [of "eng_peers e"] by (simp add: q)
  then have ok1: "manager_ok E (eng_state e W1)" using net_step_view(2) assms(1) by blast
  obtain sv M W2 where g: "get_summary_vector E (eng_state e W1) = (sv, (M, W2))"
    by (cases "get_summary_vector E (eng_state e W1)") fastforce
  have ok2: "manager_ok E (M, W2)"
    using g mgr_ops_ok(2) [OF ok1] by (simp add: get_summary_vector_def bm_get_bundles_from_node_def bm_all_def)
  have "mark_in_transit E sent_ids (M, W3) \<noteq> None"
    if "retry_peers E f bs qs [] W2 = (sent_ids, W3)" for f bs qs sent_ids W3
    using mark_total net_step_view(2) [OF retry_peers_net_step [OF that]] ok2 by blast
  then show ?thesis
    by (auto simp: retry_unsynced_bundles_def q g total_simps simp del: not_None_eq split: prod.splits)
qed

section \<open>Dropping expired bundles\<close>

text \<open>Each bundle is judged at a tick of its own, as in the sweep of the storage layer.\<close>

lemma expired_ids_eq:
  assumes "distinct (map b_id bs)" and "expired_ids E bs W = (is, W')"
  shows "filter (\<lambda>b. b_id b \<notin> set is) bs = unexpired E (tick W) bs"
    and "set is \<subseteq> b_id ` set bs" and "later W W'"
proof -
  have "filter (\<lambda>b. b_id b \<notin> set is) bs = unexpired E (tick W) bs \<and> set is \<subseteq> b_id ` set bs \<and> later W W'"
    using assms
  proof (induction bs arbitrary: W "is")
    case Nil
    then show ?case by simp
  next
    case (Cons b bs)
    obtain js where j: "expired_ids E bs (tock W) = (js, W')"
      and "is": "is = (if expired_at E (now E (tick W)) b then b_id b # js else js)"
      using Cons.prems(2) by (auto simp: is_expired_eq split: prod.splits if_splits)
    have d: "distinct (map b_id bs)" and n: "b_id b \<notin> b_id ` set bs" using Cons.prems(1) by simp_all
    from Cons.IH [OF d j] have ih: "filter (\<lambda>b. b_id b \<notin> set js) bs = unexpired E (Suc (tick W)) bs"
      "set js \<subseteq> b_id ` set bs" "later (tock W) W'" by simp_all
    have "filter (\<lambda>x. b_id x \<notin> insert (b_id b) (set js)) bs = filter (\<lambda>x. b_id x \<notin> set js) bs"
      using n by (intro filter_cong) (auto simp: image_iff)
    then show ?case using ih n "is" later_trans [OF later_tock ih(3)] by auto
  qed
  then show "filter (\<lambda>b. b_id b \<notin> set is) bs = unexpired E (tick W) bs"
    and "set is \<subseteq> b_id ` set bs" and "later W W'" by simp_all
qed

lemma delete_all_exact:
  assumes "serde_laws E" and "io_ok E" and "delete_all E is m = Some m'"
  shows "bm_view E m' = filter (\<lambda>b. b_id b \<notin> set is) (bm_view E m) \<and> bm_step m m'"
  using assms(3)
proof (induction "is" arbitrary: m)
  case Nil
  then show ?case by (simp add: mgr.step_refl)
next
  case (Cons i "is")
  from Cons.prems obtain r m1 where d: "bm_delete_bundle E i m = Some (r, m1)"
    and rest: "delete_all E is m1 = Some m'" by (auto simp: bind_eq_Some_conv)
  have "bm_view E m1 = remove_id i (bm_view E m)"
    using mgr.delete_exact [OF conjI [OF assms(1,2)] d] by simp
  with Cons.IH [OF rest] mgr.step_trans mgr.delete_law [OF assms(1) d] show ?case
    by (auto simp: remove_id_def conj_commute intro: mgr.step_trans)
qed

lemma delete_all_ok:
  assumes "manager_ok E m"
  shows "\<exists>m'. delete_all E is m = Some m' \<and> manager_ok E m' \<and> bm_step m m' \<and>
    set (bm_view E m') \<subseteq> set (bm_view E m)"
  using assms
proof (induction "is" arbitrary: m)
  case Nil
  then show ?case by (simp add: mgr.step_refl)
next
  case (Cons i "is")
  have "serde_laws E" using manager_okD(1) [OF Cons.prems] .
  then obtain r m1 where d: "bm_delete_bundle E i m = Some (r, m1)"
    using mgr.total(3) by (metis not_None_eq surj_pair)
  note d1 = mgr_ops_ok(5) [OF Cons.prems d]
  then obtain m' where "delete_all E is m1 = Some m'" "manager_ok E m'" "bm_step m1 m'"
    "set (bm_view E m') \<subseteq> set (bm_view E m1)" using Cons.IH by blast
  then show ?case using d d1 mgr.step_trans by fastforce
qed

lemma later_manager:
  "later W W' \<Longrightarrow> bm_view E (M, W') = bm_view E (M, W)"
  "later W W' \<Longrightarrow> manager_ok E (M, W) \<Longrightarrow> manager_ok E (M, W')"
  using net_step_view [OF later_net_step] by blast+

lemma drop_expired_exact:
  assumes "manager_ok E m" and "io_ok E" and "drop_expired_bundles E m = Some m'"
  shows "\<exists>t. bm_view E m' = unexpired E t (bm_view E m)"
proof -
  have serde: "serde_laws E" by (rule manager_okD(1) [OF assms(1)])
  obtain bs M W where a: "bm_all E m = (bs, (M, W))" by (cases "bm_all E m") fastforce
  obtain sent_ids W1 where x: "expired_ids E bs W = (sent_ids, W1)" by fastforce
  have bs: "bs = bm_view E m" using mgr.all_exact [OF conjI [OF serde assms(2)] a] by simp
  have v: "bm_view E (M, W) = bm_view E m" using mgr.all_law [OF serde a] by simp
  have d: "distinct (map b_id bs)" using manager_okD(2) [OF assms(1)] by (simp add: bs)
  note e = expired_ids_eq [OF d x]
  from assms(3) have "delete_all E sent_ids (M, W1) = Some m'" by (simp add: drop_expired_bundles_def a x)
  from delete_all_exact [OF serde assms(2) this] e bs v later_manager(1) [OF e(3), where E = E]
  show ?thesis by auto
qed

lemma drop_expired_total:
  assumes "manager_ok E m"
  shows "\<exists>m'. drop_expired_bundles E m = Some m' \<and> manager_ok E m' \<and>
    set (bm_view E m') \<subseteq> set (bm_view E m)"
proof -
  obtain bs M W where a: "bm_all E m = (bs, (M, W))" by (cases "bm_all E m") fastforce
  obtain sent_ids W1 where x: "expired_ids E bs W = (sent_ids, W1)" by fastforce
  note all = mgr_ops_ok(2) [OF assms a]
  have "bs = bm_view E m \<or> bs = []"
    using mgr.all_law [OF manager_okD(1) [OF assms] a] by blast
  then have "distinct (map b_id bs)" using manager_okD(2) [OF assms] by auto
  note l = later_manager [OF expired_ids_eq(3) [OF this x], where E = E and M = M]
  from delete_all_ok [OF l(2), of sent_ids] all l(1) show ?thesis
    by (auto simp: drop_expired_bundles_def a x)
qed

end
