(* ===== verification/Peer_Loop.thy ===== *)
theory Peer_Loop
  imports Engine_Loops
begin

text \<open>
  The receiving side of a node, \<open>respond_peer_sv\<close> and \<open>handle_peer_to_peer\<close> of
  \<open>network/client.rs\<close>: one connection from a peer, which carries summary vector requests
  (JSON) and bundles (a four byte length and the protobuf message). One round of the loop is
  \<open>peer_iteration\<close>, what it does with a bundle it has received is \<open>take_in\<close>; the loop itself is a partial function, since a connection on which
  \<open>peek\<close> succeeds and \<open>read\<close> fails for ever is never left.
\<close>

section \<open>The code\<close>

definition respond_peer_sv ::
    "'v env \<Rightarrow> stream \<Rightarrow> RoutingEngine \<Rightarrow> world \<Rightarrow> stream \<times> RoutingEngine \<times> world" where
  "respond_peer_sv E stream e W =
     (let (r, stream, W) = stream_read E 4096 stream W
      in case r of
           None \<Rightarrow> (stream, e, W)
         | Some bs \<Rightarrow>
             (case kind_from_slice E bs of
                Some (RequestSV _) \<Rightarrow>
                  (let (stored, (M, W)) = bm_get_bundles_from_node E (bundle_manager e, W);
                       e = e\<lparr>bundle_manager := M\<rparr>;
                       is = map b_id stored
                   in case kind_to_vec E (SummaryVector is) of
                        None \<Rightarrow> (stream, e, W)
                      | Some payload \<Rightarrow>
                          (let (ok, W) = stream_write_all E stream (length_prefix payload) W
                           in if \<not> ok then (stream, e, W)
                              else
                                (let (_, W) = stream_write_all E stream payload W
                                 in (stream, e, W))))
              | _ \<Rightarrow> (stream, e, W)))"

text \<open>
  What a round does with a bundle it has received: whether the loop goes on, and the state
  after it. Without a runtime the loop is left.
\<close>

definition take_in :: "'v env \<Rightarrow> RoutingEngine \<Rightarrow> Bundle \<Rightarrow> world \<Rightarrow> (bool \<times> RoutingEngine \<times> world) option" where
  "take_in E e b W =
     (let (known, (M, W)) = bm_has_bundle E (b_id b) (bundle_manager e, W);
          e = e\<lparr>bundle_manager := M\<rparr>
      in if known then Some (True, e, W)
         else if \<not> runtime_build E (tick W) then Some (False, e, tock W)
         else do { (e, _, W) \<leftarrow> route_bundle E e b (tock W); Some (True, e, W) })"

text \<open>
  One round of the loop: whether it goes on, and the state after it. \<open>0x7b\<close> is
  \<open>b'{'\<close>. \<open>None\<close> is a panic in the storage layer.
\<close>

definition peer_iteration ::
    "'v env \<Rightarrow> RoutingEngine \<Rightarrow> stream \<Rightarrow> world \<Rightarrow> (bool \<times> RoutingEngine \<times> stream \<times> world) option" where
  "peer_iteration E e stream W =
     (let (first, W) = stream_peek E stream W
      in case first of
           None \<Rightarrow> Some (False, e, stream, W)
         | Some [] \<Rightarrow> Some (False, e, stream, W)
         | Some (c # _) \<Rightarrow>
             if c = 0x7b
             then (let (stream, e, W) = respond_peer_sv E stream e W in Some (True, e, stream, W))
             else
               (let (r, stream, W) = receive_bundle E stream W
                in case r of
                     None \<Rightarrow> Some (False, e, stream, W)
                   | Some b \<Rightarrow>
                       do { (again, e, W) \<leftarrow> take_in E e b W; Some (again, e, stream, W) }))"

partial_function (option) handle_peer_to_peer ::
    "'v env \<Rightarrow> RoutingEngine \<Rightarrow> stream \<Rightarrow> world \<Rightarrow> (RoutingEngine \<times> stream \<times> world) option" where
  "handle_peer_to_peer E e stream W =
     (case peer_iteration E e stream W of
        None \<Rightarrow> None
      | Some (again, e, stream, W) \<Rightarrow>
          (if again then handle_peer_to_peer E e stream W else Some (e, stream, W)))"

section \<open>Reading from the connection\<close>

text \<open>The bundles some part of the bytes of a connection decodes to.\<close>

definition received_from :: "'v env \<Rightarrow> byte list \<Rightarrow> Bundle set" where
  "received_from E bs =
     {bundle_of_proto E p | p ps. sublist ps bs \<and> deserialize E ps = Some p}"

lemmas round_def = peer_iteration_def take_in_def

lemma received_from_mono: "sublist xs ys \<Longrightarrow> received_from E xs \<subseteq> received_from E ys"
  unfolding received_from_def by (auto dest: sublist_order.order_trans)

lemma sublist_rest [simp]: "sublist (drop n xs) xs" "sublist (take k (drop n xs)) xs"
  by (metis append_take_drop_id sublist_append_leftI sublist_order.order_refl)
     (metis append_take_drop_id sublist_append_leftI sublist_append_rightI sublist_order.order_trans)

lemma receive_bundle_result:
  assumes "receive_bundle E S W = (r, S', W')"
  shows "sublist (s_in S') (s_in S)" and "net_step {} W W'"
    and "\<And>b. r = Some b \<Longrightarrow> b \<in> received_from E (s_in S)"
    and "\<And>b. r = Some b \<Longrightarrow> length (s_in S') < length (s_in S)"
proof -
  obtain h S1 W1 where h: "stream_read_exact E 4 S W = (h, S1, W1)" by (metis surj_pair)
  have s1: "s_in S1 = drop 4 (s_in S)" "h \<noteq> None \<Longrightarrow> 4 \<le> length (s_in S)"
    using h by (auto simp: stream_read_exact_def split: if_splits)
  note n1 = net_steps(3) [OF h, of "{}"]
  have "sublist (s_in S') (s_in S) \<and> net_step {} W W' \<and>
    (\<forall>b. r = Some b \<longrightarrow> b \<in> received_from E (s_in S) \<and> length (s_in S') < length (s_in S))"
  proof (cases h)
    case None
    with assms h s1 n1 show ?thesis by (simp add: receive_bundle_def)
  next
    case (Some len)
    obtain q S2 W2 where q: "stream_read_exact E (unat (from_be_bytes len)) S1 W1 = (q, S2, W2)"
      by (metis surj_pair)
    have s2: "s_in S2 = drop (unat (from_be_bytes len)) (s_in S1)"
      "\<And>ps. q = Some ps \<Longrightarrow> ps = take (unat (from_be_bytes len)) (s_in S1)"
      using q by (auto simp: stream_read_exact_def split: if_splits)
    have l: "length (s_in S2) < length (s_in S)" using s1 s2(1) Some by simp
    have sub: "sublist (s_in S2) (s_in S)" by (simp add: s1(1) s2(1))
    have n2: "net_step {} W W2" using n1 net_steps(3) [OF q] by (rule net_step_trans_same)
    show ?thesis
    proof (cases q)
      case None
      with assms h Some q sub n2 show ?thesis by (simp add: receive_bundle_def)
    next
      case ps: (Some ps)
      show ?thesis
      proof (cases "deserialize E ps")
        case None
        with assms h Some q ps sub n2 show ?thesis by (simp add: receive_bundle_def)
      next
        case p: (Some p)
        obtain ok W3 where w: "stream_write_all E S2 ack_bytes W2 = (ok, W3)" by fastforce
        from assms h Some q ps p w have r: "r = Some (bundle_of_proto E p)" "S' = S2" "W' = W3"
          by (simp_all add: receive_bundle_def)
        have "sublist ps (s_in S)" using s2(2) [OF ps] by (simp add: s1(1))
        then have "bundle_of_proto E p \<in> received_from E (s_in S)"
          using p unfolding received_from_def by blast
        then show ?thesis using r l sub net_step_trans_same [OF n2 net_steps(1) [OF w]] by simp
      qed
    qed
  qed
  then show "sublist (s_in S') (s_in S)" "net_step {} W W'"
    "\<And>b. r = Some b \<Longrightarrow> b \<in> received_from E (s_in S)"
    "\<And>b. r = Some b \<Longrightarrow> length (s_in S') < length (s_in S)" by blast+
qed

section \<open>Provenance on a connection\<close>

definition ack_closed :: "uuid \<Rightarrow> Bundle set \<Rightarrow> bool" where
  "ack_closed i D \<longleftrightarrow> (\<forall>x \<in> D. \<not> is_Ack (b_kind x) \<longrightarrow> i = n_id (b_destination x) \<longrightarrow>
     (\<forall>a. acknowledges a x \<longrightarrow> a \<in> D))"

lemma ack_closedD:
  "ack_closed i D \<Longrightarrow> x \<in> D \<Longrightarrow> \<not> is_Ack (b_kind x) \<Longrightarrow> i = n_id (b_destination x) \<Longrightarrow>
     acknowledges a x \<Longrightarrow> a \<in> D"
  by (simp add: ack_closed_def)

lemma respond_stays:
  assumes "confined E D (eng_state e W)" and "respond_peer_sv E S e W = (S', e', W')"
  shows "stays E D (eng_state e W) (eng_state e' W')" and "same_config e e'"
    and "sublist (s_in S') (s_in S)"
proof -
  obtain r S1 W1 where r: "stream_read E 4096 S W = (r, S1, W1)" by (metis surj_pair)
  from r have s1: "sublist (s_in S1) (s_in S)" by (auto simp: stream_read_def Let_def split: if_splits)
  from confined_net [OF assms(1) net_steps(2) [OF r], of "{}"]
  have st: "stays E D (eng_state e W) (eng_state e W1)" by simp
  have "stays E D (eng_state e W) (eng_state e' W') \<and> same_config e e' \<and> S' = S1"
  proof (cases "\<exists>bs i. r = Some bs \<and> kind_from_slice E bs = Some (RequestSV i)")
    case False
    with assms(2) r have "S' = S1 \<and> e' = e \<and> W' = W1"
      by (auto simp: respond_peer_sv_def split: option.splits BundleKind.splits)
    then show ?thesis using st by simp
  next
    case True
    then obtain bs i where bs: "r = Some bs" "kind_from_slice E bs = Some (RequestSV i)" by blast
    obtain stored M W2 where g: "bm_get_bundles_from_node E (eng_state e W1) = (stored, (M, W2))"
      by (cases "bm_get_bundles_from_node E (eng_state e W1)") fastforce
    have "get_summary_vector E (eng_state e W1) = (stored, (M, W2))"
      using g by (simp add: get_summary_vector_def)
    from stays_trans [OF st confined_all(1) [OF stays_confined [OF st] this]]
    have s2: "stays E D (eng_state e W) (M, W2)" .
    from assms(2) r bs g have e': "e' = e\<lparr>bundle_manager := M\<rparr>" and S': "S' = S1" and "net_step {} W2 W'"
      by (auto simp: respond_peer_sv_def Let_def split: option.splits prod.splits if_splits
          dest!: net_steps(1) [where B = "{}"] intro: net_step_trans_same)
    from stays_trans [OF s2 confined_net [OF stays_confined [OF s2] this(3)]]
    show ?thesis using e' S' by simp
  qed
  then show "stays E D (eng_state e W) (eng_state e' W')" "same_config e e'"
    "sublist (s_in S') (s_in S)" using s1 by blast+
qed

lemma take_in_stays:
  assumes "confined E D (eng_state e W)" and "status_closed D" and "b \<in> D"
    and "\<And>a. \<not> is_Ack (b_kind b) \<Longrightarrow> eng_node_id e = n_id (b_destination b) \<Longrightarrow> acknowledges a b \<Longrightarrow> a \<in> D"
    and "take_in E e b W = Some (again, e', W')"
  shows "stays E D (eng_state e W) (eng_state e' W') \<and> same_config e e'"
proof -
  obtain known M W2 where k: "bm_has_bundle E (b_id b) (eng_state e W) = (known, (M, W2))" by (metis surj_pair)
  have s2: "stays E D (eng_state e W) (M, W2)" by (rule confined_has_bundle [OF assms(1) k])
  from stays_trans [OF s2 confined_net [OF stays_confined [OF s2] net_step_tock, of "{}"]]
  have s3: "stays E D (eng_state e W) (M, tock W2)" by simp
  show ?thesis
  proof (cases "known \<or> \<not> runtime_build E (tick W2)")
    case True
    then show ?thesis using assms(5) k s2 s3 by (auto simp: take_in_def Let_def split: if_splits)
  next
    case False
    with assms(5) k obtain b' where
      r: "route_bundle E (e\<lparr>bundle_manager := M\<rparr>) b (tock W2) = Some (e', b', W')"
      by (auto simp: take_in_def Let_def bind_eq_Some_conv)
    have c: "confined E D (eng_state (e\<lparr>bundle_manager := M\<rparr>) (tock W2))" using stays_confined [OF s3] by simp
    from route_bundle_stays [OF c assms(2,3) _ r] assms(4)
    have "stays E D (M, tock W2) (eng_state e' W')" "same_config e e'" by simp_all
    then show ?thesis using stays_trans [OF s3] by blast
  qed
qed

lemma peer_iteration_stays:
  assumes "confined E D (eng_state e W)" and "status_closed D" and "ack_closed (eng_node_id e) D"
    and "received_from E (s_in S) \<subseteq> D" and "peer_iteration E e S W = Some (again, e', S', W')"
  shows "stays E D (eng_state e W) (eng_state e' W')" and "same_config e e'"
    and "sublist (s_in S') (s_in S)"
proof -
  obtain f where f: "stream_peek E S W = (f, tock W)" by (simp add: stream_peek_def)
  from confined_net [OF assms(1) net_step_tock, of "{}"]
  have s0: "stays E D (eng_state e W) (eng_state e (tock W))" by simp
  have "stays E D (eng_state e W) (eng_state e' W') \<and> same_config e e' \<and> sublist (s_in S') (s_in S)"
  proof (cases "\<exists>c cs. f = Some (c # cs)")
    case False
    with assms(5) f have "e' = e \<and> S' = S \<and> W' = tock W"
      by (auto simp: round_def split: option.splits list.splits)
    then show ?thesis using s0 by simp
  next
    case True
    then obtain c cs where c: "f = Some (c # cs)" by blast
    show ?thesis
    proof (cases "c = 0x7b")
      case True
      with assms(5) f c have "respond_peer_sv E S e (tock W) = (S', e', W')"
        by (auto simp: round_def split: prod.splits)
      from respond_stays [OF stays_confined [OF s0] this] s0 show ?thesis by (blast intro: stays_trans)
    next
      case False
      obtain r S1 W1 where r: "receive_bundle E S (tock W) = (r, S1, W1)" by (metis surj_pair)
      note rr = receive_bundle_result [OF r]
      from stays_trans [OF s0 confined_net [OF stays_confined [OF s0] rr(2)]]
      have s1: "stays E D (eng_state e W) (eng_state e W1)" by simp
      show ?thesis
      proof (cases r)
        case None
        with assms(5) f c False r s1 rr(1) show ?thesis by (auto simp: round_def)
      next
        case (Some b)
        then have b: "b \<in> D" using rr(3) assms(4) by blast
        have t: "take_in E e b W1 = Some (again, e', W')" and "S' = S1"
          using assms(5) f c False r Some by (auto simp: peer_iteration_def bind_eq_Some_conv)
        from take_in_stays [OF stays_confined [OF s1] assms(2) b ack_closedD [OF assms(3) b] t]
        show ?thesis using stays_trans [OF s1] rr(1) \<open>S' = S1\<close> by blast
      qed
    qed
  qed
  then show "stays E D (eng_state e W) (eng_state e' W')" "same_config e e'"
    "sublist (s_in S') (s_in S)" by blast+
qed

lemma handle_peer_stays:
  assumes "handle_peer_to_peer E e S W = Some (e', S', W')"
    and "confined E D (eng_state e W)" and "status_closed D" and "ack_closed (eng_node_id e) D"
    and "received_from E (s_in S) \<subseteq> D"
  shows "stays E D (eng_state e W) (eng_state e' W') \<and> same_config e e'"
proof -
  have "confined E D (eng_state e W) \<longrightarrow> ack_closed (eng_node_id e) D \<longrightarrow>
      received_from E (s_in S) \<subseteq> D \<longrightarrow>
      (case r of (e', S', W') \<Rightarrow> stays E D (eng_state e W) (eng_state e' W') \<and> same_config e e')"
    if "handle_peer_to_peer E e S W = Some r" for E :: "'v env" and e S W r
    using that
  proof (rule handle_peer_to_peer.raw_induct [rotated], goal_cases)
    case (1 hp E e S W r)
    show ?case
    proof (intro impI)
      assume c: "confined E D (eng_state e W)" and a: "ack_closed (eng_node_id e) D"
        and rc: "received_from E (s_in S) \<subseteq> D"
      from 1(2) obtain again e1 S1 W1 where it: "peer_iteration E e S W = Some (again, e1, S1, W1)"
        by (auto split: option.splits)
      note st = peer_iteration_stays [OF c assms(3) a rc it]
      show "case r of (e', S', W') \<Rightarrow> stays E D (eng_state e W) (eng_state e' W') \<and> same_config e e'"
      proof (cases again)
        case False
        with 1(2) it st show ?thesis by auto
      next
        case True
        with 1(2) it have "hp E e1 S1 W1 = Some r" by simp
        moreover have "confined E D (eng_state e1 W1)" using stays_confined [OF st(1)] .
        moreover have "ack_closed (eng_node_id e1) D" using a st(2) by (simp add: same_config_def)
        moreover have "received_from E (s_in S1) \<subseteq> D" using received_from_mono [OF st(3)] rc by blast
        ultimately have "case r of (e', S', W') \<Rightarrow> stays E D (eng_state e1 W1) (eng_state e' W') \<and> same_config e1 e'"
          using 1(1) by blast
        then show ?thesis using st same_config_trans [OF st(2)] by (auto intro: stays_trans)
      qed
    qed
  qed
  from this [OF assms(1)] assms show ?thesis by auto
qed

section \<open>The loop returns\<close>

lemma peer_iteration_ok:
  assumes "manager_ok E (eng_state e W)" and "peer_iteration E e S W = Some (again, e', S', W')"
  shows "manager_ok E (eng_state e' W')"
  using peer_iteration_stays(1) [of E UNIV e W S again e' S' W'] assms
  by (auto simp: confined_def status_closed_def ack_closed_def stays_def)

lemma peer_iteration_total:
  assumes "manager_ok E (eng_state e W)"
  shows "peer_iteration E e S W \<noteq> None"
proof -
  obtain f where f: "stream_peek E S W = (f, tock W)" by (simp add: stream_peek_def)
  obtain r S1 W1 where r: "receive_bundle E S (tock W) = (r, S1, W1)" by (metis surj_pair)
  have "net_step {} W W1" using receive_bundle_result(2) [OF r] net_step_tock net_step_trans_same by blast
  then have ok1: "manager_ok E (eng_state e W1)" using assms net_step_view(2) by blast
  have "route_bundle E (e\<lparr>bundle_manager := M\<rparr>) b (tock W2) \<noteq> None"
    if k: "bm_has_bundle E (b_id b) (eng_state e W1) = (known, (M, W2))" for b known M W2
  proof -
    have "manager_ok E (M, W2)" using has_bundle_ok [OF ok1 k] by blast
    then have "manager_ok E (M, tock W2)" using net_step_view(2) [OF net_step_tock] by blast
    then show ?thesis using route_bundle_total [of E "e\<lparr>bundle_manager := M\<rparr>" "tock W2" b] by simp
  qed
  then show ?thesis
    by (auto simp: round_def f r total_simps simp del: not_None_eq
        split: option.splits list.splits prod.splits)
qed

lemma peer_iteration_consumes:
  assumes "\<And>n. tcp_read E n" and "peer_iteration E e S W = Some (True, e', S', W')"
  shows "length (s_in S') < length (s_in S)"
proof (cases "s_in S")
  case Nil
  with assms show ?thesis by (simp add: round_def stream_peek_def)
next
  case (Cons c cs)
  have f: "stream_peek E S W = (Some [c], tock W)" using assms(1) Cons by (simp add: stream_peek_def)
  show ?thesis
  proof (cases "c = 0x7b")
    case True
    obtain S1 e1 W1 where r: "respond_peer_sv E S e (tock W) = (S1, e1, W1)" by (metis surj_pair)
    with assms(2) f True have "S' = S1" by (simp add: round_def)
    moreover have "s_in S1 = drop (min 4096 (max 1 (tcp_chunk E (tick (tock W))))) (s_in S)"
      using r assms(1) unfolding respond_peer_sv_def stream_read_def Let_def
      by (auto split: option.splits BundleKind.splits prod.splits if_splits)
    ultimately show ?thesis using Cons by simp
  next
    case False
    obtain r S1 W1 where r: "receive_bundle E S (tock W) = (r, S1, W1)" by (metis surj_pair)
    with assms(2) f False have "r \<noteq> None \<and> S' = S1"
      by (auto simp: round_def Let_def bind_eq_Some_conv split: option.splits prod.splits if_splits)
    then show ?thesis using receive_bundle_result(4) [OF r] by blast
  qed
qed

lemma handle_peer_returns:
  assumes "\<And>n. tcp_read E n" and "manager_ok E (eng_state e W)"
  shows "handle_peer_to_peer E e S W \<noteq> None"
  using assms(2)
proof (induction "length (s_in S)" arbitrary: e S W rule: less_induct)
  case less
  obtain again e1 S1 W1 where it: "peer_iteration E e S W = Some (again, e1, S1, W1)"
    using peer_iteration_total [OF less.prems] by (metis not_None_eq surj_pair)
  show ?case
  proof (cases again)
    case False
    then show ?thesis by (simp add: handle_peer_to_peer.simps it)
  next
    case True
    have "length (s_in S1) < length (s_in S)"
      using peer_iteration_consumes [OF assms(1), of e S W e1 S1 W1] it True by simp
    with less.hyps peer_iteration_ok [OF less.prems it] have "handle_peer_to_peer E e1 S1 W1 \<noteq> None" by blast
    then show ?thesis using True by (subst handle_peer_to_peer.simps) (simp add: it)
  qed
qed

section \<open>Frames and summary vectors across a connection\<close>

text \<open>
  The first byte of a frame is the top byte of its length; a payload shorter than
  \<open>0x7b000000\<close> bytes (about two gigabytes) is never taken for a request.
\<close>

lemma hd_framed: "hd (framed payload) = hd (to_be_bytes (of_nat (length payload)))"
  by (simp add: framed_def length_prefix_def to_be_bytes_def)

lemma framed_not_brace:
  assumes "length payload < 0x7b000000"
  shows "hd (framed payload) \<noteq> 0x7b"
proof
  assume "hd (framed payload) = 0x7b"
  then have "unat (hd (to_be_bytes (of_nat (length payload)))) = 0x7b" by (simp add: hd_framed)
  moreover have "unat (of_nat (length payload) :: u32) = length payload"
    using assms by (simp add: unsigned_of_nat take_bit_nat_eq_self)
  ultimately have "length payload div 2 ^ 24 = 0x7b" unfolding hd_to_be_bytes by simp
  then show False using assms times_div_less_eq_dividend [of "2 ^ 24" "length payload"] by simp
qed

lemma peek_framed:
  assumes "\<And>n. tcp_read E n" and "s_in S = framed payload @ rest"
  shows "stream_peek E S W = (Some [hd (framed payload)], tock W)"
  using assms by (simp add: stream_peek_def framed_def length_prefix_def to_be_bytes_def)

text \<open>One round on a frame: the bundle of the sender is dropped if known, else routed.\<close>

lemma peer_iteration_framed:
  assumes "protobuf_laws E" and "\<And>n. tcp_read E n" and "\<And>n. runtime_build E n"
    and "length payload < 0x7b000000" and "serialize E (proto_of_bundle E b) = Some payload"
    and "s_in S = framed payload @ rest"
  shows "\<exists>W1. net_step {} W W1 \<and> peer_iteration E e S W =
    (case bm_has_bundle E (b_id (over_wire E b)) (bundle_manager e, W1) of
       (known, (M, W2)) \<Rightarrow>
         if known then Some (True, e\<lparr>bundle_manager := M\<rparr>, S\<lparr>s_in := rest\<rparr>, W2)
         else map_option (\<lambda>(e', _, W'). (True, e', S\<lparr>s_in := rest\<rparr>, W'))
                (route_bundle E (e\<lparr>bundle_manager := M\<rparr>) (over_wire E b) (tock W2)))"
proof -
  have l: "length payload < 2 ^ 32" using assms(4) by simp
  obtain W1 where r: "receive_bundle E S (tock W) = (Some (over_wire E b), S\<lparr>s_in := rest\<rparr>, W1)"
    using receive_framed [OF assms(1,2) l assms(5,6), of "tock W"] by blast
  have n: "net_step {} W W1" using receive_bundle_result(2) [OF r] net_step_tock net_step_trans_same by blast
  obtain known M W2 where k: "bm_has_bundle E (b_id (over_wire E b)) (bundle_manager e, W1) = (known, (M, W2))"
    by (metis surj_pair)
  have "peer_iteration E e S W =
      (if known then Some (True, e\<lparr>bundle_manager := M\<rparr>, S\<lparr>s_in := rest\<rparr>, W2)
         else map_option (\<lambda>(e', _, W'). (True, e', S\<lparr>s_in := rest\<rparr>, W'))
                (route_bundle E (e\<lparr>bundle_manager := M\<rparr>) (over_wire E b) (tock W2)))"
    using framed_not_brace [OF assms(4)] assms(3)
    by (cases "route_bundle E (e\<lparr>bundle_manager := M\<rparr>) (over_wire E b) (tock W2)")
      (auto simp: round_def peek_framed [OF assms(2,6)] r k Let_def)
  then show ?thesis using n k by auto
qed

text \<open>
  \<open>kind_laws\<close>: the derived JSON codec of \<open>BundleKind\<close> reads back what it wrote.
\<close>

definition kind_laws :: "'v env \<Rightarrow> bool" where
  "kind_laws E \<longleftrightarrow> (\<forall>k bs. kind_to_vec E k = Some bs \<longrightarrow> kind_from_slice E bs = Some k)"

text \<open>What a node answers to a summary vector request that arrives whole.\<close>

lemma respond_answers:
  assumes "kind_laws E" and "serde_laws E" and "io_ok E" and "\<And>n. tcp_read E n"
    and "\<And>n. tcp_write E n = None" and "\<And>n. length req \<le> tcp_chunk E n"
    and "kind_to_vec E (RequestSV i) = Some req" and "length req \<le> 4096"
    and "kind_to_vec E (SummaryVector (map b_id (bm_view E (eng_state e W)))) = Some payload"
    and "s_in S = req" and "respond_peer_sv E S e W = (S', e', W')"
  shows "sent W' = sent W @ [(s_addr S, length_prefix payload), (s_addr S, payload)]"
    and "bm_view E (eng_state e' W') = bm_view E (eng_state e W)"
proof -
  have r: "stream_read E 4096 S W = (Some req, S\<lparr>s_in := []\<rparr>, tock W)"
    using assms(4,8,10) le_trans [OF assms(6) max.cobounded2, of 1 "tick W"]
    by (simp add: stream_read_def Let_def)
  have k: "kind_from_slice E req = Some (RequestSV i)" using assms(1,7) by (simp add: kind_laws_def)
  obtain stored M W2 where g: "bm_get_bundles_from_node E (eng_state e (tock W)) = (stored, (M, W2))"
    by (metis surj_pair)
  have "get_summary_vector E (eng_state e (tock W)) = (stored, (M, W2))"
    using g by (simp add: get_summary_vector_def)
  note x = summary_exact [OF assms(2,3) this]
  have v: "bm_view E (eng_state e (tock W)) = bm_view E (eng_state e W)"
    by (rule net_view [OF net_step_tock])
  have "sent W2 = sent W"
    using x(3) by (simp add: bm_step_def bm_store_def store_step_def store_frame_def)
  moreover have "W' = (let V = tock (W2\<lparr>sent := sent W2 @ [(s_addr S, length_prefix payload)]\<rparr>)
      in tock (V\<lparr>sent := sent V @ [(s_addr S, payload)]\<rparr>))" and "e' = e\<lparr>bundle_manager := M\<rparr>"
    using assms(9,11) x(1) v by (auto simp: respond_peer_sv_def r k g stream_write_all_def assms(5) Let_def)
  moreover have "bm_view E (M, W') = bm_view E (M, W2)"
    unfolding \<open>W' = _\<close> by (rule net_view [where B = "{}"]) (simp add: net_step_def Let_def)
  ultimately show "sent W' = sent W @ [(s_addr S, length_prefix payload), (s_addr S, payload)]"
    and "bm_view E (eng_state e' W') = bm_view E (eng_state e W)" using x(2) v by (simp_all add: Let_def)
qed

text \<open>What the asking node makes of that answer.\<close>

lemma request_reads_answer:
  assumes "kind_laws E" and "\<And>n a. tcp_connect E n a" and "\<And>n. tcp_read E n"
    and "\<And>n. tcp_write E n = None" and "kind_to_vec E (RequestSV i) = Some req"
    and "kind_to_vec E (SummaryVector is) = Some payload" and "length payload < 2 ^ 32"
    and "tcp_incoming E (tick V) a = framed payload"
  shows "fst (request_peer_sv E i a V) = Some is"
proof -
  have k: "kind_from_slice E payload = Some (SummaryVector is)" using assms(1,6) by (simp add: kind_laws_def)
  have c: "connect_with_retry E a 3 2 V = (Some \<lparr>s_addr = a, s_in = framed payload\<rparr>, tock V)"
    using assms(2,8) by (simp add: connect_with_retry_def upt_conv_Cons)
  have "take 4 (framed payload) = length_prefix payload" "drop 4 (framed payload) = payload"
    by (simp_all add: framed_def length_prefix_def)
  then show ?thesis
    by (simp add: request_peer_sv_def c assms(3,4,5) stream_write_all_def stream_read_exact_def Let_def
        prefix_value [OF assms(7)] k)
qed

text \<open>The sample environment satisfies the laws.\<close>

lemma sample_kind_laws: "kind_laws sample_env"
proof -
  have "get_kind (put_kind k) = Some (k, [])" for k using readsD [OF reads_kind, of k "[]"] by simp
  then show ?thesis by (auto simp: kind_laws_def sample_env_def)
qed

end
