(* ===== verification/Network_Props.thy ===== *)
theory Network_Props
  imports Peer_Loop
begin

text \<open>
  The properties of the wire format, the client and the receiving loop.
\<close>

section \<open>The wire\<close>

text \<open>
  C14. A data bundle or an acknowledgement crosses the wire whole: encoding it and decoding the
  message gives it back, but for the sub-second part of the time stamp and for the status,
  which is always pending on arrival. A second hop changes nothing more.
\<close>

theorem wire_round_trip:
  assumes "uuid_laws E" and "chrono_laws E" and "carriable b"
  shows "(\<exists>t. bundle_of_proto E (proto_of_bundle E b) = b\<lparr>b_timestamp := t, b_status := Pending\<rparr> \<and>
      timestamp_seconds E t = timestamp_seconds E (b_timestamp b)) \<and>
    (bundle_of_proto E (proto_of_bundle E (over_wire E b)) = over_wire E b)"
proof -
  let ?t = "datetime_or_default E (timestamp_seconds E (b_timestamp b))"
  obtain u where u: "from_timestamp E (timestamp_seconds E (b_timestamp b)) = Some u"
    "timestamp_seconds E u = timestamp_seconds E (b_timestamp b)"
    using assms(2) unfolding chrono_laws_def by blast
  then have t: "timestamp_seconds E ?t = timestamp_seconds E (b_timestamp b)" by (simp add: datetime_or_default_def)
  note w = over_wire_eq [OF assms(1)]
  have g1: "\<exists>t. bundle_of_proto E (proto_of_bundle E b) = b\<lparr>b_timestamp := t, b_status := Pending\<rparr> \<and>
      timestamp_seconds E t = timestamp_seconds E (b_timestamp b)"
    using w [OF assms(3)] t unfolding over_wire_def by blast
  have "carriable (over_wire E b)" using assms(3) w [OF assms(3)] by (simp add: carriable_def)
  from w [OF this] have g2: "bundle_of_proto E (proto_of_bundle E (over_wire E b)) = over_wire E b"
    unfolding over_wire_def [symmetric] using w [OF assms(3)] t by simp
  from g1 g2 show ?thesis by blast
qed

theorem wire_round_trip_witness:
  "\<exists>t. bundle_of_proto sample_env (proto_of_bundle sample_env sample_bundle) =
     sample_bundle\<lparr>b_timestamp := t, b_status := Pending\<rparr>"
  using wire_round_trip [OF sample_uuid_laws sample_chrono_laws, of sample_bundle, THEN conjunct1]
  by (auto simp: carriable_def sample_bundle_def)

text \<open>
  The control messages do not cross the wire: a bundle that carries a summary vector
  request or a summary vector is decoded as a data bundle with the text of the identifiers.
\<close>

lemma control_bundles_become_data:
  assumes "\<not> carriable b"
  shows "is_Data (b_kind (bundle_of_proto E (proto_of_bundle E b)))"
  using assms
  by (cases "b_kind b")
    (simp_all add: carriable_def proto_of_bundle_def bundle_of_proto_def proto_kind_or_default_def)

section \<open>Connections\<close>

text \<open>
  C36. \<open>connect_with_retry\<close> returns the first of \<open>max_retries\<close> attempts that succeeds,
  and tries no further; it sleeps \<open>delay_secs\<close> after each failed attempt but the last
  one, so at most \<open>(max_retries - 1) * delay_secs\<close> seconds.
\<close>

theorem connect_with_retry_correct:
  "connect_with_retry E a n d W =
     (case find (\<lambda>k. tcp_connect E (tick W + k) a) [0..<n] of
        Some k \<Rightarrow> (Some \<lparr>s_addr = a, s_in = tcp_incoming E (tick W + k) a\<rparr>,
                   W\<lparr>tick := tick W + Suc k, slept := slept W + k * d\<rparr>)
      | None \<Rightarrow> (None, W\<lparr>tick := tick W + n, slept := slept W + (n - 1) * d\<rparr>)) \<and>
   slept (snd (connect_with_retry E a n d W)) \<le> slept W + (n - 1) * d"
proof -
  have "k * d \<le> (n - 1) * d" if "find (\<lambda>k. tcp_connect E (tick W + k) a) [0..<n] = Some k" for k
    using find_SomeD [OF that] by (intro mult_le_mono1) auto
  then show ?thesis unfolding connect_with_retry_eq connect_spec_def by (auto split: option.splits)
qed

text \<open>
  C37. \<open>send_bundle\<close> reports success only if it has written the whole frame, the length of
  the message in four big-endian bytes and then the message, to the address of the peer; and
  nothing else.
\<close>

theorem sent_means_written:
  assumes "send_bundle E i b a W = (True, W')"
  shows "\<exists>payload. write_to_bytes E (proto_of_bundle E b) = Some payload \<and>
    sent W' = sent W @ [(a, to_be_bytes (of_nat (length payload))), (a, payload)]"
  using assms by (cases rule: send_bundle_cases) (auto simp: serialize_def length_prefix_def)

lemma send_succeeds:
  assumes "net_ok E" and "\<And>n. tcp_read E n" and "\<And>n a. 4 \<le> length (tcp_incoming E n a)"
  shows "\<exists>W'. send_bundle E i b a W = (True, W')"
proof -
  obtain payload where p: "serialize E (proto_of_bundle E b) = Some payload"
    using assms(1) unfolding net_ok_def serialize_def by blast
  have "tcp_write E m = None" for m using assms(1) by (simp add: net_ok_def)
  then show ?thesis
    by (simp add: send_bundle_def p connect_to_peer_def net_ok_connect [OF assms(1)] stream_write_all_def
        stream_read_exact_def Let_def assms(2,3))
qed

definition answering_env :: "string env" where
  "answering_env = sample_env\<lparr>tcp_incoming := (\<lambda>_ _. ack_bytes)\<rparr>"

lemma answering_send: "\<exists>W'. send_bundle answering_env i b a W = (True, W')"
  using sample_net_ok by (intro send_succeeds) (simp_all add: answering_env_def net_ok_def sample_env_def ack_bytes_def)

theorem sent_means_written_witness:
  "\<exists>W' payload. send_bundle answering_env 1 sample_bundle ''b:1'' sample_world = (True, W') \<and>
     sent W' = sent sample_world @ [(''b:1'', to_be_bytes (of_nat (length payload))), (''b:1'', payload)]"
proof -
  obtain W' where s: "send_bundle answering_env 1 sample_bundle ''b:1'' sample_world = (True, W')"
    using answering_send by blast
  from sent_means_written [OF s] s show ?thesis by blast
qed

text \<open>
  C15. A receiver takes off the wire what the sender put on it: from a connection whose next
  bytes are a frame of \<open>b\<close>, \<open>receive_bundle\<close> returns \<open>b\<close> as it crosses the wire
  and leaves the connection at the end of the frame.
\<close>

theorem receive_what_was_sent:
  assumes "protobuf_laws E" and "\<And>n. tcp_read E n" and "length payload < 2 ^ 32"
    and "write_to_bytes E (proto_of_bundle E b) = Some payload"
    and "s_in S = to_be_bytes (of_nat (length payload)) @ payload @ rest"
  shows "\<exists>W'. receive_bundle E S W = (Some (over_wire E b), S\<lparr>s_in := rest\<rparr>, W')"
  using assms by (intro receive_framed) (simp_all add: serialize_def framed_def length_prefix_def)

text \<open>The message of the sample bundle is short.\<close>

definition sample_payload :: "byte list" where
  "sample_payload = bytes_of (put_pb (proto_of_bundle sample_env sample_bundle))"

lemma sample_payload_write: "write_to_bytes sample_env (proto_of_bundle sample_env sample_bundle) = Some sample_payload"
  by (simp add: sample_payload_def sample_env_def)

lemma sum_list_put_string: "sum_list (put_list (\<lambda>c. [of_char c]) s) \<le> length s * 256"
proof -
  have "sum_list (map of_char s) \<le> length s * (255 :: nat)"
  proof (induction s)
    case (Cons c s)
    have "of_char c \<le> (255 :: nat)" using nat_of_char_less_256 [of c] by linarith
    then show ?case using Cons by simp
  qed simp
  moreover have "concat (map (\<lambda>c. [of_char c]) s) = map of_char s" by (induction s) simp_all
  ultimately show ?thesis by (simp add: put_list_def)
qed

lemma length_put_string: "length (put_list (\<lambda>c. [of_char c]) s) = Suc (length s)"
  by (induction s) (simp_all add: put_list_def)

lemma sample_payload_length: "length sample_payload < 100000"
proof -
  let ?c = "\<lambda>s. sum_list (put_list (\<lambda>c. [of_char c]) s) + length (put_list (\<lambda>c. [of_char c]) s)"
  have c: "?c s \<le> 257 * length s + 1" for s
    using sum_list_put_string [of s] by (simp add: length_put_string)
  have t: "length (text_of [n]) = Suc n" for n by (simp add: length_text_of)
  note b = c [of "text_of [7]"] c [of "text_of [1]"] c [of "text_of [2]"] c [of "''alice''"] c [of "''bob''"]
    c [of "''127.0.0.1''"] c [of "''hello''"]
  show ?thesis
    using b unfolding t
    by (simp add: sample_payload_def put_pb_def proto_of_bundle_def sample_bundle_def sample_node_def
        sample_env_def put_int_def put_list_def [of _ "[]"])
qed

lemma sample_tcp_read: "tcp_read sample_env n"
  by (simp add: sample_env_def)

theorem receive_what_was_sent_witness:
  "\<exists>W'. receive_bundle sample_env \<lparr>s_addr = ''a'', s_in = to_be_bytes (of_nat (length sample_payload)) @ sample_payload\<rparr>
     sample_world = (Some (over_wire sample_env sample_bundle), \<lparr>s_addr = ''a'', s_in = []\<rparr>, W')"
  using receive_what_was_sent [OF sample_protobuf_laws sample_tcp_read _ sample_payload_write,
      of "\<lparr>s_addr = ''a'', s_in = to_be_bytes (of_nat (length sample_payload)) @ sample_payload\<rparr>" "[]" sample_world]
    sample_payload_length by simp

text \<open>
  C34. Whatever is on the connection, what \<open>receive_bundle\<close> returns stood there as a whole
  frame: four bytes with the length and as many bytes that parse as a message. The bundle is
  a data bundle or an acknowledgement and pending, and the bytes after the frame are left.
\<close>

theorem received_bundle_was_framed:
  assumes "receive_bundle E S W = (Some b, S', W')"
  shows "\<exists>payload p. s_in S = to_be_bytes (of_nat (length payload)) @ payload @ s_in S' \<and> length payload < 2 ^ 32 \<and>
    parse_from_bytes E payload = Some p \<and> b = bundle_of_proto E p \<and>
    (is_Data (b_kind b) \<or> is_Ack (b_kind b)) \<and> b_status b = Pending"
proof -
  let ?n = "unat (from_be_bytes (take 4 (s_in S)))" and ?rest = "drop 4 (s_in S)"
  from assms obtain p where p: "parse_from_bytes E (take ?n ?rest) = Some p" "b = bundle_of_proto E p"
    and l: "4 \<le> length (s_in S)" "?n \<le> length ?rest" and r: "s_in S' = drop ?n ?rest"
    by (auto simp: receive_bundle_def stream_read_exact_def stream_write_all_def deserialize_def Let_def
        split: if_splits option.splits)
  have "to_be_bytes (of_nat (length (take ?n ?rest))) = take 4 (s_in S)" using l by (simp add: to_from_be_bytes)
  then have "s_in S = to_be_bytes (of_nat (length (take ?n ?rest))) @ take ?n ?rest @ s_in S'"
    unfolding r by (simp only: append_take_drop_id)
  moreover have "length (take ?n ?rest) < 2 ^ 32"
    using l(2) unsigned_less [of "from_be_bytes (take 4 (s_in S))", where ?'a = nat] by simp
  moreover have "b_status b = Pending" by (simp add: p(2) bundle_of_proto_def)
  moreover have "is_Data (b_kind b) \<or> is_Ack (b_kind b)"
    using received_carriable [of E p] by (simp add: p(2) carriable_def)
  ultimately show ?thesis using p by blast
qed

theorem received_bundle_was_framed_witness:
  "\<exists>S S' W' b payload. receive_bundle sample_env S sample_world = (Some b, S', W') \<and>
     s_in S = to_be_bytes (of_nat (length payload)) @ payload @ s_in S' \<and> b_status b = Pending"
proof -
  let ?S = "\<lparr>s_addr = ''a'', s_in = to_be_bytes (of_nat (length sample_payload)) @ sample_payload\<rparr>"
  have "\<exists>W'. receive_bundle sample_env ?S sample_world = (Some (over_wire sample_env sample_bundle), ?S\<lparr>s_in := []\<rparr>, W')"
    using sample_payload_length sample_payload_write
    by (intro receive_framed [OF sample_protobuf_laws sample_tcp_read])
      (simp_all add: serialize_def framed_def length_prefix_def)
  then obtain W' where r: "receive_bundle sample_env ?S sample_world =
      (Some (over_wire sample_env sample_bundle), ?S\<lparr>s_in := []\<rparr>, W')" by blast
  from received_bundle_was_framed [OF r] r show ?thesis by blast
qed

section \<open>The receiving loop\<close>

text \<open>
  C17. \<open>handle_peer_to_peer\<close> returns: while reads succeed every round of its loop takes
  bytes off the connection, and no bundle on it makes the node panic.
\<close>

theorem connection_is_left:
  assumes "\<And>n. tcp_read E n" and "serde_laws E"
    and "well_formed (bm_view E (bundle_manager e, W)) (bm_cap (bundle_manager e, W))"
  shows "\<exists>e' S' W'. handle_peer_to_peer E e S W = Some (e', S', W')"
proof -
  have "manager_ok E (eng_state e W)" using assms(2,3) by (simp add: manager_ok_def)
  from handle_peer_returns [OF assms(1) this] show ?thesis by (metis not_None_eq surj_pair)
qed

text \<open>An engine with an empty store.\<close>

definition sample_manager :: BundleManager where
  "sample_manager = \<lparr>bm_node_id = 2, bm_storage = \<lparr>storage_dir = ''/n'', bundles = [], capacity = 5\<rparr>\<rparr>"

definition sample_engine :: RoutingEngine where
  "sample_engine = \<lparr>eng_node_id = 2, eng_peers = [], registry_address = ''r:1'', eng_server = server_new,
     bundle_manager = sample_manager\<rparr>"

lemma sample_engine_simps [simp]:
  "bm_view E (bundle_manager sample_engine, sample_world) = []"
  "bm_view E (sample_manager, sample_world) = []"
  "bm_cap (bundle_manager sample_engine, W) = 5" "bm_cap (sample_manager, W) = 5"
  "eng_node_id sample_engine = 2" "bundle_manager sample_engine = sample_manager"
  by (simp_all add: bm_view_def bm_store_def store_view_def disk_bundles_def sample_engine_def
      sample_manager_def sample_world_def bm_cap_def)

lemma sample_manager_ok: "serde_laws E \<Longrightarrow> manager_ok E (sample_manager, sample_world)"
  by (simp add: manager_ok_def well_formed_Nil)

theorem connection_is_left_witness:
  "\<exists>e' S' W'. handle_peer_to_peer sample_env sample_engine \<lparr>s_addr = ''a'', s_in = [1, 2, 3]\<rparr> sample_world =
     Some (e', S', W')"
  by (rule connection_is_left [OF sample_tcp_read sample_serde_laws]) (simp add: well_formed_Nil)

text \<open>
  C16. One round on a connection whose next bytes are a frame of \<open>b\<close>, of less than
  \<open>0x7b000000\<close> bytes: the frame is not taken for a JSON request, the bundle is taken off the
  connection, and it is dropped if the store has its identifier, else handed to
  \<open>route_bundle\<close>. The work before that touches no file and writes no frame.
\<close>

theorem frame_is_routed:
  assumes "protobuf_laws E" and "\<And>n. tcp_read E n" and "\<And>n. runtime_build E n"
    and "length payload < 0x7b000000" and "write_to_bytes E (proto_of_bundle E b) = Some payload"
    and "s_in S = to_be_bytes (of_nat (length payload)) @ payload @ rest"
  shows "\<exists>W1. disk W1 = disk W \<and> frames W1 = frames W \<and> peer_iteration E e S W =
    (case bm_has_bundle E (b_id (over_wire E b)) (bundle_manager e, W1) of
       (known, (M, W2)) \<Rightarrow>
         if known then Some (True, e\<lparr>bundle_manager := M\<rparr>, S\<lparr>s_in := rest\<rparr>, W2)
         else map_option (\<lambda>(e', _, W'). (True, e', S\<lparr>s_in := rest\<rparr>, W'))
                (route_bundle E (e\<lparr>bundle_manager := M\<rparr>) (over_wire E b) (tock W2)))"
proof -
  have "serialize E (proto_of_bundle E b) = Some payload" "s_in S = framed payload @ rest"
    using assms(5,6) by (simp_all add: serialize_def framed_def length_prefix_def)
  from peer_iteration_framed [OF assms(1-4) this, of W e] show ?thesis by (fastforce simp: net_step_def)
qed

lemma sample_runtime: "runtime_build sample_env n"
  by (simp add: sample_env_def)

theorem frame_is_routed_witness:
  "\<exists>again e' S' W'. peer_iteration sample_env sample_engine
     \<lparr>s_addr = ''a'', s_in = to_be_bytes (of_nat (length sample_payload)) @ sample_payload\<rparr> sample_world =
     Some (again, e', S', W') \<and> s_in S' = [] \<and> again"
proof -
  let ?S = "\<lparr>s_addr = ''a'', s_in = to_be_bytes (of_nat (length sample_payload)) @ sample_payload\<rparr>"
  have "length sample_payload < 0x7b000000" using sample_payload_length by simp
  from frame_is_routed [OF sample_protobuf_laws sample_tcp_read sample_runtime this sample_payload_write,
      of ?S "[]" sample_world sample_engine]
  obtain W1 where it: "peer_iteration sample_env sample_engine ?S sample_world =
    (case bm_has_bundle sample_env (b_id (over_wire sample_env sample_bundle)) (bundle_manager sample_engine, W1) of
       (known, (M, W2)) \<Rightarrow>
         if known then Some (True, sample_engine\<lparr>bundle_manager := M\<rparr>, ?S\<lparr>s_in := []\<rparr>, W2)
         else map_option (\<lambda>(e', _, W'). (True, e', ?S\<lparr>s_in := []\<rparr>, W'))
                (route_bundle sample_env (sample_engine\<lparr>bundle_manager := M\<rparr>) (over_wire sample_env sample_bundle) (tock W2)))"
    by auto
  have "manager_ok sample_env (eng_state sample_engine sample_world)"
    using sample_manager_ok [OF sample_serde_laws] by simp
  from peer_iteration_total [OF this] have "peer_iteration sample_env sample_engine ?S sample_world \<noteq> None" .
  then show ?thesis unfolding it by (auto split: prod.splits if_splits option.splits)
qed

text \<open>
  C13. The summary vector exchange: the bytes a node with a working disk writes in answer to a
  request that arrives whole are read by the asking node as exactly the identifiers the node
  stores, in order; the node's store is unchanged.
\<close>

theorem summary_vector_exchange:
  assumes "kind_laws E" and "serde_laws E" and "io_ok E" and "\<And>n. tcp_read E n"
    and "\<And>n. tcp_write E n = None" and "\<And>n a. tcp_connect E n a"
    and "kind_to_vec E (RequestSV i) = Some req" and "length req \<le> 4096" and "\<And>n. length req \<le> tcp_chunk E n"
    and "kind_to_vec E (SummaryVector (map b_id (bm_view E (bundle_manager e, W)))) = Some payload"
    and "length payload < 2 ^ 32"
    and "respond_peer_sv E S e W = (S', e', W')" and "s_in S = req"
    and "tcp_incoming E (tick V) a = concat (map snd (drop (length (sent W)) (sent W')))"
  shows "(fst (request_peer_sv E i a V) = Some (map b_id (bm_view E (bundle_manager e, W)))) \<and>
    (bm_view E (bundle_manager e', W') = bm_view E (bundle_manager e, W))"
proof -
  note r = respond_answers [OF assms(1-5,9,7,8,10,13,12)]
  have g2: "bm_view E (bundle_manager e', W') = bm_view E (bundle_manager e, W)" by (rule r(2))
  have "tcp_incoming E (tick V) a = framed payload" using assms(14) by (simp add: r(1) framed_def)
  from request_reads_answer [OF assms(1,6,4,5,7,10,11) this]
  have g1: "fst (request_peer_sv E i a V) = Some (map b_id (bm_view E (bundle_manager e, W)))" .
  from g1 g2 show ?thesis by blast
qed

definition sample_request :: "byte list" where
  "sample_request = 0x7b # bytes_of (put_kind (RequestSV 1))"

definition sample_answer :: "byte list" where
  "sample_answer = 0x7b # bytes_of (put_kind (SummaryVector []))"

definition exchange_env :: "string env" where
  "exchange_env = sample_env\<lparr>tcp_incoming := (\<lambda>_ _. framed sample_answer), tcp_chunk := (\<lambda>_. 4096)\<rparr>"

lemma exchange_env_laws:
  "kind_laws exchange_env" "serde_laws exchange_env" "io_ok exchange_env" "tcp_read exchange_env n"
  "tcp_write exchange_env n = None" "tcp_connect exchange_env n a"
  "kind_to_vec exchange_env (RequestSV 1) = Some sample_request"
  "kind_to_vec exchange_env (SummaryVector []) = Some sample_answer"
  "tcp_chunk exchange_env n = 4096" "tcp_incoming exchange_env n a = framed sample_answer"
  using sample_kind_laws sample_serde_laws sample_io_ok
  by (simp_all add: exchange_env_def kind_laws_def serde_laws_def io_ok_def sample_env_def
      sample_request_def sample_answer_def)

lemma sample_request_length: "length sample_request \<le> 4096" "length sample_answer < 2 ^ 32"
  by (simp_all add: sample_request_def sample_answer_def put_list_def)

theorem summary_vector_exchange_witness:
  "\<exists>S' e' W'. respond_peer_sv exchange_env \<lparr>s_addr = ''a'', s_in = sample_request\<rparr> sample_engine sample_world = (S', e', W') \<and>
     fst (request_peer_sv exchange_env 1 ''b'' sample_world) = Some []"
proof -
  let ?S = "\<lparr>s_addr = ''a'', s_in = sample_request\<rparr>"
  note x = exchange_env_laws
  obtain S' e' W' where r: "respond_peer_sv exchange_env ?S sample_engine sample_world = (S', e', W')"
    by (metis surj_pair)
  have chunk: "length sample_request \<le> tcp_chunk exchange_env n" for n
    using sample_request_length(1) by (simp add: x(9))
  have view: "map b_id (bm_view exchange_env (bundle_manager sample_engine, sample_world)) = []" by simp
  have k: "kind_to_vec exchange_env (SummaryVector (map b_id
      (bm_view exchange_env (bundle_manager sample_engine, sample_world)))) = Some sample_answer"
    unfolding view by (rule x(8))
  have "s_in ?S = sample_request" by simp
  note a = respond_answers(1) [OF x(1-5) chunk x(7) sample_request_length(1) k this r]
  have "tcp_incoming exchange_env (tick sample_world) ''b'' =
      concat (map snd (drop (length (sent sample_world)) (sent W')))"
    by (simp add: a x(10) framed_def)
  from summary_vector_exchange [OF x(1-6,7) sample_request_length(1) chunk k sample_request_length(2) r _ this, THEN conjunct1]
  show ?thesis using r by auto
qed

end
