(* ===== verification/Registry_Props.thy ===== *)
theory Registry_Props
  imports Registry
begin

text \<open>
  The properties of the registry: one record per node, the poisoned mutex, who is reported as
  connected, and the loop of one connection as a run of the server.
\<close>

section \<open>The loop of a connection is a run of the server\<close>

text \<open>The state of the server as the thread of connection \<open>c\<close> changes it.\<close>

abbreviation thread_view :: "(nat \<Rightarrow> uuid option option) \<Rightarrow> nat \<Rightarrow> uuid option \<Rightarrow> Server \<Rightarrow> server_state" where
  "thread_view ss c sid S \<equiv> \<lparr>registry = S, sessions = ss(c \<mapsto> sid)\<rparr>"

lemma server_run_trans: "server_run t fs u \<Longrightarrow> server_run s es t \<Longrightarrow> server_run s (es @ fs) u"
proof (induction rule: server_run.induct)
  case (run_snoc t fs u e v)
  from server_run.run_snoc [OF run_snoc.IH [OF run_snoc.prems] run_snoc.hyps(2)] show ?case by simp
qed simp

lemma server_run_one: "server_step s e t \<Longrightarrow> server_run s [e] t"
  using server_run.run_snoc [OF server_run.run_nil] by fastforce

text \<open>
  What the thread of a connection reads: \<open>pieces\<close> of the bytes of its stream, one for each
  read, as long as the read at its tick lets it be. A piece is one message of the client.
\<close>

definition read_size :: "'v env \<Rightarrow> nat \<Rightarrow> nat" where
  "read_size E n = min 4096 (max 1 (tcp_chunk E n))"

fun pieces :: "nat list \<Rightarrow> 'b list \<Rightarrow> 'b list list" where
  "pieces [] bs = []"
| "pieces (k # ks) bs = take k bs # pieces ks (drop k bs)"

definition event_for :: "'v env \<Rightarrow> nat \<Rightarrow> byte list \<Rightarrow> server_event" where
  "event_for E c bs = (case request_from_slice E bs of None \<Rightarrow> Garbage c | Some req \<Rightarrow> Request c req)"

definition consumed :: "'v env \<Rightarrow> world \<Rightarrow> world \<Rightarrow> byte list \<Rightarrow> nat list \<Rightarrow> byte list \<Rightarrow> bool" where
  "consumed E W W' bs ns rest \<longleftrightarrow>
     sorted_wrt (<) ns \<and> (\<forall>n \<in> set ns. tick W \<le> n \<and> n < tick W') \<and>
     bs = concat (pieces (map (read_size E) ns) bs) @ rest \<and> [] \<notin> set (pieces (map (read_size E) ns) bs)"

lemma consumed_Nil: "consumed E W W' bs [] bs"
  by (simp add: consumed_def)

lemma consumed_Cons:
  assumes "consumed E V W' (drop k bs) ns rest" and "k = read_size E (tick W)" and "take k bs \<noteq> []"
    and "tick W < tick V" and "tick V \<le> tick W'"
  shows "consumed E W W' bs (tick W # ns) rest"
proof -
  from assms(1) have c: "drop k bs = concat (pieces (map (read_size E) ns) (drop k bs)) @ rest"
    by (simp add: consumed_def)
  have "bs = take k bs @ drop k bs" by simp
  also have "\<dots> = take k bs @ concat (pieces (map (read_size E) ns) (drop k bs)) @ rest" using c by simp
  finally show ?thesis using assms unfolding consumed_def by (auto simp: Suc_le_eq)
qed

lemma stream_read_piece:
  assumes "stream_read E 4096 stream W = (r, stream', V)"
  shows "tick V = Suc (tick W)" "r = None \<longleftrightarrow> \<not> tcp_read E (tick W)"
    and "r = Some bs \<Longrightarrow> bs = take (read_size E (tick W)) (s_in stream) \<and>
      s_in stream' = drop (read_size E (tick W)) (s_in stream)"
  using assms by (auto simp: stream_read_def Let_def read_size_def split: if_splits)

lemma read_size_pos: "0 < read_size E n"
  by (simp add: read_size_def)

lemma serve_tick: "serve E bs sid S W = (resp, sid', S', W') \<Longrightarrow> tick W \<le> tick W'"
  by (auto simp: serve_def Let_def split: option.splits prod.splits)

lemma write_json_tick: "write_json E stream resp W = (ok, W') \<Longrightarrow> tick W \<le> tick W'"
  by (auto simp: write_json_def stream_write_all_def split: option.splits)

lemma serve_step:
  assumes "serve E bs sid S W = (Some resp, sid', S', W')"
  shows "server_step (thread_view ss c sid S) (event_for E c bs) (thread_view ss c sid' S')"
proof (cases "request_from_slice E bs")
  case None
  with assms have "sid' = sid" "S' = S" by (simp_all add: serve_def)
  then show ?thesis using None by (simp add: server_step.garbage event_for_def)
next
  case (Some req)
  with assms have "handle_request (console E (tick W)) req sid S = (Some resp, sid', S')"
    by (auto simp: serve_def Let_def split: prod.splits)
  from handle_request_answered [OF this]
  have "handle_request True req sid (registry (thread_view ss c sid S)) = (Some resp, sid', S')" by simp
  from server_step.request [OF _ this, of c] show ?thesis using Some by (simp add: event_for_def)
qed

lemma serve_panic:
  assumes "serve E bs sid S W = (None, sid', S', W')"
  obtains req where "request_from_slice E bs = Some req" and "\<not> console E (tick W)" and "tick W' = Suc (tick W)"
    and "server_step (thread_view ss c sid S) (RequestPanic c req) \<lparr>registry = S', sessions = ss(c := None)\<rparr>"
proof -
  obtain req where req: "request_from_slice E bs = Some req"
    using assms by (cases "request_from_slice E bs") (simp_all add: serve_def)
  with assms have h: "handle_request (console E (tick W)) req sid S = (None, sid', S')" and t: "tick W' = Suc (tick W)"
    by (auto simp: serve_def Let_def split: prod.splits)
  from handle_request_panic(2) [OF h]
  have "handle_request False req sid (registry (thread_view ss c sid S)) = (None, sid', S')" by simp
  from server_step.request_panic [OF _ this, of c] show ?thesis
    using that [OF req handle_request_panic(1) [OF h] t] by simp
qed

text \<open>
  How the loop ends: at the end of the stream, at a failed read, or by a panic in the last
  request. \<open>fails P W W'\<close>: a call between the two states has failed.
\<close>

definition fails :: "(nat \<Rightarrow> bool) \<Rightarrow> world \<Rightarrow> world \<Rightarrow> bool" where
  "fails P W W' \<longleftrightarrow> (\<exists>n. tick W \<le> n \<and> n < tick W' \<and> \<not> P n)"

lemma fails_mono: "fails P V V' \<Longrightarrow> tick W \<le> tick V \<Longrightarrow> tick V' \<le> tick W' \<Longrightarrow> fails P W W'"
  unfolding fails_def by (meson dual_order.trans less_le_trans)

definition loop_ends ::
    "'v env \<Rightarrow> (nat \<Rightarrow> uuid option option) \<Rightarrow> nat \<Rightarrow> uuid option \<Rightarrow> Server \<Rightarrow> world \<Rightarrow> byte list list \<Rightarrow> byte list \<Rightarrow>
     uuid option option \<Rightarrow> Server \<Rightarrow> world \<Rightarrow> bool" where
  "loop_ends E ss c sid S W chunks rest r S' W' \<longleftrightarrow>
     (case r of
        Some sid' \<Rightarrow> (rest = [] \<or> fails (tcp_read E) W W') \<and>
          server_run (thread_view ss c sid S) (map (event_for E c) chunks) (thread_view ss c sid' S')
      | None \<Rightarrow> fails (console E) W W' \<and>
          (\<exists>cs bs req. chunks = cs @ [bs] \<and> request_from_slice E bs = Some req \<and>
             server_run (thread_view ss c sid S) (map (event_for E c) cs @ [RequestPanic c req])
               \<lparr>registry = S', sessions = ss(c := None)\<rparr>))"

lemma server_run_Cons: "server_step s e t \<Longrightarrow> server_run t fs u \<Longrightarrow> server_run s (e # fs) u"
  using server_run_trans [OF _ server_run_one] by fastforce

lemma loop_ends_Cons:
  assumes "server_step (thread_view ss c sid S) (event_for E c bs) (thread_view ss c sid1 S1)"
    and "loop_ends E ss c sid1 S1 V chunks rest r S' W'" and "tick W \<le> tick V"
  shows "loop_ends E ss c sid S W (bs # chunks) rest r S' W'"
proof (cases r)
  case None
  with assms(2) obtain cs bs' req where "chunks = cs @ [bs']" "request_from_slice E bs' = Some req"
    "server_run (thread_view ss c sid1 S1) (map (event_for E c) cs @ [RequestPanic c req])
       \<lparr>registry = S', sessions = ss(c := None)\<rparr>" and n: "fails (console E) V W'"
    by (auto simp: loop_ends_def)
  with server_run_Cons [OF assms(1)] have "bs # chunks = (bs # cs) @ [bs']" "request_from_slice E bs' = Some req"
    "server_run (thread_view ss c sid S) (map (event_for E c) (bs # cs) @ [RequestPanic c req])
       \<lparr>registry = S', sessions = ss(c := None)\<rparr>" by simp_all
  then show ?thesis using fails_mono [OF n assms(3) order_refl] by (simp only: None loop_ends_def option.simps) blast
next
  case (Some sid')
  with assms(2) server_run_Cons [OF assms(1)] show ?thesis
    using fails_mono [OF _ assms(3) order_refl] by (auto simp: loop_ends_def)
qed

lemma client_loop_run:
  "client_loop E sid stream S W = (r, S', W') \<Longrightarrow>
     \<exists>ns rest. consumed E W W' (s_in stream) ns rest \<and> tick W \<le> tick W' \<and>
       loop_ends E ss c sid S W (pieces (map (read_size E) ns) (s_in stream)) rest r S' W'"
proof (induction "length (s_in stream)" arbitrary: sid stream S W rule: less_induct)
  case less
  obtain x stream' W1 where x: "stream_read E 4096 stream W = (x, stream', W1)" by (metis surj_pair)
  note p = stream_read_piece [OF x]
  have stop: ?case if "r = Some sid" "S' = S" "W' = W1" "s_in stream = [] \<or> \<not> tcp_read E (tick W)"
    using that p(1) consumed_Nil [where E = E and W = W and W' = W' and bs = "s_in stream"]
    by (intro exI [of _ "[]"] exI [of _ "s_in stream"]) (auto simp: loop_ends_def server_run.run_nil fails_def)
  show ?case
  proof (cases x)
    case None
    with less.prems x have "r = Some sid" "S' = S" "W' = W1" by (simp_all add: client_loop.simps)
    then show ?thesis using stop p(2) None by blast
  next
    case (Some bs)
    note bs = p(3) [OF Some]
    show ?thesis
    proof (cases "bs = []")
      case True
      with less.prems x Some have "r = Some sid" "S' = S" "W' = W1" by (simp_all add: client_loop.simps)
      then show ?thesis using stop bs True read_size_pos [of E "tick W"] by simp
    next
      case False
      obtain resp sid1 S1 W2 where s: "serve E bs sid S W1 = (resp, sid1, S1, W2)" by (metis surj_pair)
      have t2: "tick W < tick W2" using serve_tick [OF s] p(1) by simp
      show ?thesis
      proof (cases resp)
        case None
        with less.prems x Some False s have e: "r = None" "S' = S1" "W' = W2" by (simp_all add: client_loop.simps)
        from serve_panic [OF s [unfolded None]] obtain req where q: "request_from_slice E bs = Some req"
          "\<not> console E (tick W1)" "tick W2 = Suc (tick W1)"
          "server_step (thread_view ss c sid S) (RequestPanic c req) \<lparr>registry = S1, sessions = ss(c := None)\<rparr>" .
        have "fails (console E) W W'" using q(2,3) p(1) e(3) by (auto simp: fails_def intro: exI [of _ "tick W1"])
        then have "loop_ends E ss c sid S W [bs] (s_in stream') r S' W'"
          using q(1) server_run_one [OF q(4)] unfolding loop_ends_def e(1,2) option.simps
          by (intro conjI exI [of _ "[]"] exI [of _ bs] exI [of _ req]) simp_all
        moreover have "consumed E W W' (s_in stream) [tick W] (s_in stream')"
          using consumed_Cons [OF consumed_Nil refl, of E W "s_in stream" W2 W'] bs False t2 e(3) by simp
        ultimately show ?thesis using bs t2 e(3) by (intro exI [of _ "[tick W]"] exI [of _ "s_in stream'"]) simp
      next
        case (Some response)
        obtain ok W3 where w: "write_json E stream' response W2 = (ok, W3)" by fastforce
        from less.prems x \<open>x = Some bs\<close> False s Some w have l: "client_loop E sid1 stream' S1 W3 = (r, S', W')"
          by (subst (asm) client_loop.simps) simp
        have t3: "tick W < tick W3" using t2 write_json_tick [OF w] by simp
        have "length (s_in stream') < length (s_in stream)"
          using stream_read_shorter [of E 4096 stream W bs stream' W1] x \<open>x = Some bs\<close> False by simp
        from less.hyps [OF this l] obtain ns rest where n: "consumed E W3 W' (s_in stream') ns rest"
          "tick W3 \<le> tick W'" "loop_ends E ss c sid1 S1 W3 (pieces (map (read_size E) ns) (s_in stream')) rest r S' W'" by blast
        have "consumed E W W' (s_in stream) (tick W # ns) rest"
          using consumed_Cons [OF n(1) [unfolded bs [THEN conjunct2]] refl _ t3 n(2)] bs False by simp
        moreover from loop_ends_Cons [OF serve_step [OF s [unfolded Some]] n(3), of W]
        have "loop_ends E ss c sid S W (pieces (map (read_size E) (tick W # ns)) (s_in stream)) rest r S' W'"
          using bs t3 by simp
        ultimately show ?thesis using t3 n(2) by (intro exI [of _ "tick W # ns"] exI [of _ rest]) simp
      qed
    qed
  qed
qed

section \<open>Properties\<close>

lemma some_panic:
  "(\<exists>e \<in> set es. panics e) \<longleftrightarrow> (\<exists>c req. RequestPanic c req \<in> set es \<or> ClosePanic c \<in> set es)"
proof
  assume "\<exists>e \<in> set es. panics e"
  then show "\<exists>c req. RequestPanic c req \<in> set es \<or> ClosePanic c \<in> set es" by (metis panics.elims(2))
next
  assume "\<exists>c req. RequestPanic c req \<in> set es \<or> ClosePanic c \<in> set es"
  then obtain c req where "RequestPanic c req \<in> set es \<or> ClosePanic c \<in> set es" by blast
  then show "\<exists>e \<in> set es. panics e" using panics.simps(1,2) by metis
qed

text \<open>
  C19. After any interleaving of connections, requests, malformed requests, closings and
  panics the registry holds one record per node identifier. Its mutex is poisoned exactly if a
  thread could not print under the lock, and then no peer is reported and no record changes
  ever again.
\<close>

theorem one_record_per_node:
  assumes "server_run server_init es s"
  shows "distinct (map (\<lambda>r. n_id (p_node r)) (peer_registry (registry s))) \<and>
    (poisoned (registry s) \<longleftrightarrow> (\<exists>c req. RequestPanic c req \<in> set es \<or> ClosePanic c \<in> set es)) \<and>
    (poisoned (registry s) \<longrightarrow> server_run s fs t \<longrightarrow>
      registry t = registry s \<and> get_connected_peers (registry t) is = [])"
proof -
  have "distinct (map (\<lambda>r. n_id (p_node r)) (peer_registry (registry s)))"
    using server_run_distinct [OF assms] by (simp add: server_init_def server_new_def)
  moreover have "poisoned (registry s) \<longleftrightarrow> (\<exists>c req. RequestPanic c req \<in> set es \<or> ClosePanic c \<in> set es)"
    unfolding some_panic [symmetric] using server_run_poisoned [OF assms] by (simp add: server_init_def server_new_def)
  moreover have "registry t = registry s \<and> get_connected_peers (registry t) is = []"
    if "poisoned (registry s)" "server_run s fs t"
    using server_run_frozen [OF that(2,1)] that(1) by (simp add: get_connected_peers_def)
  ultimately show ?thesis by blast
qed

definition sample_peer :: "uuid \<Rightarrow> Node" where
  "sample_peer i = sample_node i ''n''"

lemma sample_run_register:
  assumes "server_run s es \<lparr>registry = \<lparr>peer_registry = rs, poisoned = False\<rparr>, sessions = ss\<rparr>" and "ss c = Some sid"
  shows "server_run s (es @ [Request c (Register n)])
    \<lparr>registry = \<lparr>peer_registry = register_node n rs, poisoned = False\<rparr>, sessions = ss(c \<mapsto> Some (n_id n))\<rparr>"
proof -
  let ?s = "\<lparr>registry = \<lparr>peer_registry = rs, poisoned = False\<rparr>, sessions = ss\<rparr>"
  have "handle_request True (Register n) sid (registry ?s) =
      (Some Ok, Some (n_id n), \<lparr>peer_registry = register_node n rs, poisoned = False\<rparr>)"
    by (simp add: handle_request_def)
  from run_snoc [OF assms(1) server_step.request [OF _ this, of c]] show ?thesis using assms(2) by simp
qed

lemma sample_run_accept:
  assumes "server_run s es \<lparr>registry = R, sessions = ss\<rparr>" and "ss c = None"
  shows "server_run s (es @ [Accept c]) \<lparr>registry = R, sessions = ss(c \<mapsto> None)\<rparr>"
  using run_snoc [OF assms(1) server_step.accept [of _ c]] assms(2) by simp

lemma sample_run_close:
  assumes "server_run s es \<lparr>registry = R, sessions = ss\<rparr>" and "ss c = Some sid"
  shows "server_run s (es @ [Close c]) \<lparr>registry = close_session True sid R, sessions = ss(c := None)\<rparr>"
  using run_snoc [OF assms(1) server_step.close [of _ c]] assms(2) by simp

lemma sample_init: "server_run server_init [] \<lparr>registry = \<lparr>peer_registry = [], poisoned = False\<rparr>, sessions = Map.empty\<rparr>"
  using run_nil [of server_init] by (simp add: server_init_def server_new_def)

text \<open>One connection that registers a node.\<close>

lemma sample_run_one:
  "server_run server_init [Accept 0, Request 0 (Register (sample_peer 1))]
     \<lparr>registry = \<lparr>peer_registry = [\<lparr>p_node = sample_peer 1, p_status = Connected\<rparr>], poisoned = False\<rparr>,
      sessions = Map.empty(0 \<mapsto> Some 1)\<rparr>"
proof -
  have a: "server_run server_init [Accept 0]
      \<lparr>registry = \<lparr>peer_registry = [], poisoned = False\<rparr>, sessions = Map.empty(0 \<mapsto> None)\<rparr>"
    using sample_run_accept [OF sample_init, of 0] by simp
  have r: "register_node (sample_peer 1) [] = [\<lparr>p_node = sample_peer 1, p_status = Connected\<rparr>]"
    by (simp add: register_node_def)
  have i: "n_id (sample_peer 1) = 1" by (simp add: sample_peer_def sample_node_def)
  show ?thesis using sample_run_register [OF a, of 0 None "sample_peer 1"] unfolding r i by simp
qed

text \<open>A thread that cannot print the record it has registered.\<close>

lemma sample_run_panic:
  "server_run server_init [Accept 0, RequestPanic 0 (Register (sample_peer 1))]
     \<lparr>registry = \<lparr>peer_registry = [\<lparr>p_node = sample_peer 1, p_status = Connected\<rparr>], poisoned = True\<rparr>,
      sessions = Map.empty\<rparr>"
proof -
  let ?s = "\<lparr>registry = \<lparr>peer_registry = [], poisoned = False\<rparr>, sessions = Map.empty(0 \<mapsto> None)\<rparr>"
  have a: "server_run server_init [Accept 0] ?s" using sample_run_accept [OF sample_init, of 0] by simp
  have "handle_request False (Register (sample_peer 1)) None (registry ?s) = (None, Some 1,
      \<lparr>peer_registry = [\<lparr>p_node = sample_peer 1, p_status = Connected\<rparr>], poisoned = True\<rparr>)"
    by (simp add: handle_request_def register_node_def sample_peer_def sample_node_def)
  from run_snoc [OF a server_step.request_panic [OF _ this, of 0]] show ?thesis by simp
qed

theorem one_record_per_node_witness:
  "\<exists>s. server_run server_init [Accept 0, RequestPanic 0 (Register (sample_peer 1))] s \<and>
     distinct (map (\<lambda>r. n_id (p_node r)) (peer_registry (registry s))) \<and>
     poisoned (registry s) \<and> get_connected_peers (registry s) [] = []"
proof -
  obtain s where s: "server_run server_init [Accept 0, RequestPanic 0 (Register (sample_peer 1))] s"
    using sample_run_panic by blast
  from one_record_per_node [OF s, of "[]" s "[]"] s show ?thesis by (auto intro: server_run.run_nil)
qed

text \<open>
  C20. If every connection registers at most one node, a node is listed as connected only while
  a connection that registered it is open.
\<close>

theorem connected_means_open:
  assumes "server_run server_init es s"
    and "\<And>c n n'. Request c (Register n) \<in> set es \<Longrightarrow> Request c (Register n') \<in> set es \<Longrightarrow> n_id n = n_id n'"
    and "r \<in> set (get_connected_peers (registry s) is)"
  shows "\<exists>c. sessions s c = Some (Some (n_id (p_node r)))"
proof -
  have "one_identity es" using assms(2) unfolding one_identity_def by blast
  from server_run_alive [OF assms(1) refl this] have "poisoned (registry s) \<or> connected_alive s" by simp
  then show ?thesis using assms(3)
    by (auto simp: connected_alive_def get_connected_peers_def split: if_splits)
qed

theorem connected_means_open_witness:
  "\<exists>s c. server_run server_init [Accept 0, Request 0 (Register (sample_peer 1))] s \<and>
     sessions s c = Some (Some 1)"
proof -
  have "\<lparr>p_node = sample_peer 1, p_status = Connected\<rparr> \<in> set (get_connected_peers
      (registry \<lparr>registry = \<lparr>peer_registry = [\<lparr>p_node = sample_peer 1, p_status = Connected\<rparr>], poisoned = False\<rparr>,
        sessions = Map.empty(0 \<mapsto> Some 1)\<rparr>) [])" by (simp add: get_connected_peers_def)
  from connected_means_open [OF sample_run_one _ this] sample_run_one show ?thesis
    by (auto simp: sample_peer_def sample_node_def)
qed

text \<open>
  The record of a node survives what other nodes and connections do, and so does the session
  of the connection that registered it.
\<close>

lemma record_survives:
  "server_run t fs u \<Longrightarrow> \<not> poisoned (registry u) \<Longrightarrow> x \<in> set (peer_registry (registry t)) \<Longrightarrow> n_id (p_node x) = i \<Longrightarrow>
   \<forall>c m. Request c (Register m) \<in> set fs \<longrightarrow> n_id m \<noteq> i \<Longrightarrow>
   \<forall>c. Close c \<in> set fs \<longrightarrow> sessions t c \<noteq> Some (Some i) \<Longrightarrow>
   x \<in> set (peer_registry (registry u)) \<and> (\<forall>c. sessions u c = Some (Some i) \<longrightarrow> sessions t c = Some (Some i))"
proof (induction rule: server_run.induct)
  case (run_snoc t fs u e v)
  have "\<not> poisoned (registry u)" using server_step_poisoned [OF run_snoc.hyps(2)] run_snoc.prems(1) by simp
  then have x: "x \<in> set (peer_registry (registry u))"
    and o: "\<forall>c. sessions u c = Some (Some i) \<longrightarrow> sessions t c = Some (Some i)"
    using run_snoc.IH run_snoc.prems by simp_all
  have n: "\<not> touches u i e"
  proof (cases e)
    case (Request c req)
    then show ?thesis using run_snoc.prems(4) by (cases req) auto
  qed (use run_snoc.prems(5) o in auto)
  have "x \<in> set (peer_registry (registry v))"
    using server_step_keeps_record [OF run_snoc.hyps(2) run_snoc.prems(1) x] n run_snoc.prems(3) by simp
  then show ?case using server_step_session [OF run_snoc.hyps(2) _ n] o by blast
qed simp

lemma session_survives:
  "server_run t fs u \<Longrightarrow> \<not> poisoned (registry u) \<Longrightarrow> sessions t c = Some (Some i) \<Longrightarrow>
   \<forall>m. Request c (Register m) \<notin> set fs \<Longrightarrow> Close c \<notin> set fs \<Longrightarrow> sessions u c = Some (Some i)"
proof (induction rule: server_run.induct)
  case (run_snoc t fs u e v)
  then show ?case using server_step_poisoned [OF run_snoc.hyps(2)]
    by (intro server_step_session_kept [OF run_snoc.hyps(2)]) auto
qed simp

lemma register_step:
  assumes "server_step s (Request c (Register n)) t" and "\<not> poisoned (registry s)"
  shows "registry t = (registry s)\<lparr>peer_registry := register_node n (peer_registry (registry s))\<rparr>"
    and "sessions t = (sessions s)(c \<mapsto> Some (n_id n))"
  using assms by (auto elim!: requestE simp: handle_request_def)

lemma register_has: "\<lparr>p_node = n, p_status = Connected\<rparr> \<in> set (register_node n rs)"
proof (cases "find (has_node_id (n_id n)) rs")
  case (Some x)
  then show ?thesis
    using update_first_hit [OF Some, of "\<lambda>r. r\<lparr>p_node := n, p_status := Connected\<rparr>"]
    by (simp add: register_node_def)
qed (simp add: register_node_def)

text \<open>
  C21. A node that registers is reported as connected, with the data of that registration, to
  everyone who asks for it or for all, after any further run of the server in which it does not
  register again, no connection that stands for it closes and no thread panics: what the other
  nodes do makes no difference. Once its connection closes it is not reported any more.
\<close>

theorem registration_is_reported:
  assumes "server_run server_init es s" and "server_step s (Request c (Register n)) t" and "server_run t fs u"
    and "\<not> poisoned (registry u)"
    and "\<And>c' m. Request c' (Register m) \<in> set fs \<Longrightarrow> n_id m \<noteq> n_id n"
    and "\<And>c'. Close c' \<in> set fs \<Longrightarrow> sessions t c' \<noteq> Some (Some (n_id n))"
    and "is = [] \<or> n_id n \<in> set is"
  shows "(\<lparr>p_node = n, p_status = Connected\<rparr> \<in> set (get_connected_peers (registry u) is)) \<and>
    (\<forall>r \<in> set (get_connected_peers (registry u) is). n_id (p_node r) = n_id n \<longrightarrow> p_node r = n) \<and>
    ((\<forall>m. Request c (Register m) \<notin> set fs) \<longrightarrow> server_step u (Close c) v \<longrightarrow>
      (\<forall>r \<in> set (get_connected_peers (registry v) is). n_id (p_node r) \<noteq> n_id n))"
proof -
  have np: "\<not> poisoned (registry s)"
    using assms(4) server_run_poisoned [OF assms(3)] server_step_poisoned [OF assms(2)] by simp
  note t = register_step [OF assms(2) np]
  let ?x = "\<lparr>p_node = n, p_status = Connected\<rparr>"
  have x: "?x \<in> set (peer_registry (registry u))"
    using record_survives [OF assms(3,4), of ?x "n_id n"] assms(5,6) register_has t(1) by simp
  have d: "distinct (node_ids (peer_registry (registry u)))"
    using server_run_distinct [OF server_run_trans [OF assms(3) run_snoc [OF assms(1,2)]]]
    by (simp add: server_init_def server_new_def)
  have only: "r = ?x" if "r \<in> set (peer_registry (registry u))" "n_id (p_node r) = n_id n" for r
    using node_id_inj [OF d that(1) x] that(2) by simp
  have "n_id (p_node r) \<noteq> n_id n"
    if q: "\<forall>m. Request c (Register m) \<notin> set fs" and v: "server_step u (Close c) v"
      and r: "r \<in> set (get_connected_peers (registry v) is)" for r
  proof -
    have st: "sessions t c = Some (Some (n_id n))" by (simp add: t(2))
    then have "Close c \<notin> set fs" using assms(6) by blast
    from session_survives [OF assms(3,4) st q this] have "sessions u c = Some (Some (n_id n))" .
    with v have "registry v = close_session True (Some (n_id n)) (registry u)" by (auto elim: closeE)
    then show ?thesis using r mark_not_connected [OF d, of r "n_id n"] assms(4)
      by (auto simp: get_connected_peers_def close_session_printed)
  qed
  moreover have "?x \<in> set (get_connected_peers (registry u) is)"
    using x assms(4,7) by (simp add: get_connected_peers_def)
  moreover have "p_node r = n" if "r \<in> set (get_connected_peers (registry u) is)" "n_id (p_node r) = n_id n" for r
    using only [of r] that by (auto simp: get_connected_peers_def split: if_splits)
  ultimately show ?thesis by blast
qed

theorem registration_is_reported_witness:
  "\<exists>t u. server_step \<lparr>registry = server_new, sessions = Map.empty(0 \<mapsto> None, 1 \<mapsto> None)\<rparr>
       (Request 0 (Register (sample_peer 1))) t \<and>
     server_run t [Request 1 (Register (sample_peer 2)), Close 1] u \<and>
     \<lparr>p_node = sample_peer 1, p_status = Connected\<rparr> \<in> set (get_connected_peers (registry u) [1])"
proof -
  let ?ss = "Map.empty(0 \<mapsto> None, 1 \<mapsto> None) :: nat \<Rightarrow> uuid option option"
  have i: "n_id (sample_peer k) = k" for k by (simp add: sample_peer_def sample_node_def)
  have s: "server_run server_init [Accept 0, Accept 1] \<lparr>registry = server_new, sessions = ?ss\<rparr>"
    using sample_run_accept [OF sample_run_accept [OF sample_init, of 0], of 1] by (simp add: server_new_def)
  obtain t where t: "server_step \<lparr>registry = server_new, sessions = ?ss\<rparr> (Request 0 (Register (sample_peer 1))) t"
    using server_step.request [of "\<lparr>registry = server_new, sessions = ?ss\<rparr>" 0 None "Register (sample_peer 1)"]
    by (fastforce simp: handle_request_def server_new_def)
  note t' = register_step [OF t, simplified]
  have np: "\<not> poisoned (registry t)" using server_step_poisoned [OF t] by (simp add: server_new_def)
  obtain w where w: "server_step t (Request 1 (Register (sample_peer 2))) w"
    using server_step.request [of t 1 None "Register (sample_peer 2)"] t'(2) np
    by (fastforce simp: handle_request_def server_new_def)
  have "sessions w 1 = Some (Some 2)" using register_step(2) [OF w np] by (simp add: i)
  from server_step.close [OF this] obtain u where u: "server_step w (Close 1) u" by blast
  have r: "server_run t [Request 1 (Register (sample_peer 2)), Close 1] u"
    using server_run_Cons [OF w server_run_one [OF u]] .
  have "\<not> poisoned (registry u)" using server_run_poisoned [OF r] np by simp
  from registration_is_reported [OF s t r this, of "[1]"] show ?thesis
    using t r t'(2) by (auto simp: i server_new_def)
qed

text \<open>
  C22. A node that registers again on a new connection is marked as disconnected when its old
  connection closes, although the new one is open: the closing thread goes by the identifier.
\<close>

theorem reconnect_is_lost:
  assumes "registry_ok (registry s)" and "sessions s c = Some sid" and "c' \<noteq> c" and "sessions s c' = Some (Some (n_id n))"
    and "server_step s (Request c (Register n)) t" and "server_step t (Close c') u"
  shows "(sessions u c = Some (Some (n_id n))) \<and>
    (\<forall>r \<in> set (get_connected_peers (registry u) is). n_id (p_node r) \<noteq> n_id n)"
proof -
  have np: "\<not> poisoned (registry s)" and d: "distinct (node_ids (peer_registry (registry s)))"
    using assms(1) by (simp_all add: registry_ok_def)
  let ?rs = "register_node n (peer_registry (registry s))"
  from assms(5) have t: "t = s\<lparr>registry := (registry s)\<lparr>peer_registry := ?rs\<rparr>,
      sessions := (sessions s)(c \<mapsto> Some (n_id n))\<rparr>"
    by (rule requestE) (use np in \<open>auto simp: handle_request_def\<close>)
  from assms(6) have u: "u = t\<lparr>registry := close_session True (Some (n_id n)) (registry t), sessions := (sessions t)(c' := None)\<rparr>"
    by (rule closeE) (use assms(3,4) in \<open>simp add: t\<close>)
  have g1: "sessions u c = Some (Some (n_id n))" using assms(3) by (simp add: u t)
  have g2: "\<forall>r \<in> set (get_connected_peers (registry u) is). n_id (p_node r) \<noteq> n_id n"
    using mark_not_connected [OF register_distinct [OF d]] np
    by (fastforce simp: u t get_connected_peers_def close_session_printed)
  from g1 g2 show ?thesis by blast
qed

definition sample_twice :: server_state where
  "sample_twice = \<lparr>registry = \<lparr>peer_registry = [\<lparr>p_node = sample_peer 1, p_status = Connected\<rparr>], poisoned = False\<rparr>,
     sessions = Map.empty(0 \<mapsto> Some 1, 1 \<mapsto> None)\<rparr>"

theorem reconnect_is_lost_witness:
  "\<exists>t u. server_step sample_twice (Request 1 (Register (sample_peer 1))) t \<and> server_step t (Close 0) u \<and>
     sessions u 1 = Some (Some 1) \<and> get_connected_peers (registry u) [1] = []"
proof -
  let ?n = "sample_peer 1"
  have i: "n_id ?n = 1" by (simp add: sample_peer_def sample_node_def)
  have ok: "registry_ok (registry sample_twice)" by (simp add: registry_ok_def sample_twice_def)
  have s: "sessions sample_twice 1 = Some None" "sessions sample_twice 0 = Some (Some (n_id ?n))"
    by (simp_all add: sample_twice_def i)
  obtain resp sid' S' where "handle_request True (Register ?n) None (registry sample_twice) = (resp, sid', S')"
    by (metis surj_pair)
  from server_step.request [OF s(1) this] obtain t where t: "server_step sample_twice (Request 1 (Register ?n)) t"
    and st: "sessions t = (sessions sample_twice)(1 \<mapsto> sid')" by fastforce
  have "sessions t 0 = Some (Some (n_id ?n))" using s(2) by (simp add: st)
  from server_step.close [OF this] obtain u where u: "server_step t (Close 0) u" by blast
  have ne: "(0 :: nat) \<noteq> 1" by simp
  note r0 = reconnect_is_lost [OF ok s(1) ne s(2) t u]
  note r = r0 [THEN conjunct1] r0 [THEN conjunct2]
  have "x \<notin> set (get_connected_peers (registry u) [1])" for x
  proof
    assume x: "x \<in> set (get_connected_peers (registry u) [1])"
    then have "n_id (p_node x) = 1" by (simp add: get_connected_peers_def split: if_splits)
    with r(2) [of "[1]"] x i show False by metis
  qed
  then have "get_connected_peers (registry u) [1] = []" by (metis list.set_intros(1) neq_Nil_conv)
  moreover have "sessions u 1 = Some (Some 1)" using r(1) i by simp
  ultimately show ?thesis using t u by blast
qed

lemma close_session_cases:
  "close_session printed sid S = close_session True sid S \<or>
   (\<not> printed \<and> \<not> poisoned S \<and> poisoned (close_session False sid S))"
  by (cases printed) (auto simp: close_session_def split: option.splits)

text \<open>
  C18. The loop of \<open>handle_client\<close> refines the step relation of the server. The thread reads
  the bytes of its connection in consecutive pieces, as long as each read lets them be, up to
  the end of the stream unless a read or a print of this call fails; each piece is one event, the
  request it parses to or a malformed one. What the thread does to the registry is the run of
  exactly these events in this order, then the closing of the connection, with a panic in the
  last of its critical sections if a print fails there. It ends the session and no other one.
\<close>

theorem handle_client_refines:
  assumes "handle_client E stream S W = (S', W')"
  shows "\<exists>ns cs rest es. cs = pieces (map (read_size E) ns) (s_in stream) \<and> s_in stream = concat cs @ rest \<and>
    [] \<notin> set cs \<and> sorted_wrt (<) ns \<and> (\<forall>n \<in> set ns. tick W \<le> n \<and> n < tick W') \<and>
    server_run \<lparr>registry = S, sessions = ss(c \<mapsto> None)\<rparr> es \<lparr>registry = S', sessions = ss(c := None)\<rparr> \<and>
    (es = map (event_for E c) cs @ [Close c] \<or>
      fails (console E) W W' \<and>
      (es = map (event_for E c) cs @ [ClosePanic c] \<or>
        (\<exists>ds bs req. cs = ds @ [bs] \<and> request_from_slice E bs = Some req \<and>
          es = map (event_for E c) ds @ [RequestPanic c req]))) \<and>
    (rest = [] \<or> fails (tcp_read E) W W' \<or> fails (console E) W W')"
proof -
  obtain r S1 W1 where l: "client_loop E None stream S W = (r, S1, W1)" by (metis surj_pair)
  from client_loop_run [OF l, where c = c and ss = ss] obtain ns rest where c: "consumed E W W1 (s_in stream) ns rest"
    and e: "loop_ends E ss c None S W (pieces (map (read_size E) ns) (s_in stream)) rest r S1 W1" by blast
  have t: "tick W1 \<le> tick W'" using assms l by (auto simp: handle_client_def split: option.splits)
  let ?cs = "pieces (map (read_size E) ns) (s_in stream)"
  have cs: "s_in stream = concat ?cs @ rest" "[] \<notin> set ?cs" "sorted_wrt (<) ns"
    "\<forall>n \<in> set ns. tick W \<le> n \<and> n < tick W'"
    using c t by (auto simp: consumed_def)
  have "\<exists>es. server_run (thread_view ss c None S) es \<lparr>registry = S', sessions = ss(c := None)\<rparr> \<and>
    (es = map (event_for E c) ?cs @ [Close c] \<or>
      fails (console E) W W' \<and>
      (es = map (event_for E c) ?cs @ [ClosePanic c] \<or>
        (\<exists>ds bs req. ?cs = ds @ [bs] \<and> request_from_slice E bs = Some req \<and>
          es = map (event_for E c) ds @ [RequestPanic c req]))) \<and>
    (rest = [] \<or> fails (tcp_read E) W W' \<or> fails (console E) W W')"
  proof (cases r)
    case None
    with assms l have "S' = S1" by (simp add: handle_client_def)
    with e None fails_mono [OF _ order_refl t] show ?thesis unfolding loop_ends_def by fastforce
  next
    case (Some sid)
    let ?p = "console E (tick W1)" and ?es = "map (event_for E c) ?cs" and ?t = "thread_view ss c sid S1"
    have S': "S' = close_session ?p sid S1" using assms l Some by (simp add: handle_client_def)
    from e Some have run: "server_run (thread_view ss c None S) ?es ?t"
      and all: "rest = [] \<or> fails (tcp_read E) W W'"
      using fails_mono [OF _ order_refl t] by (auto simp: loop_ends_def)
    from close_session_cases [of ?p sid S1] show ?thesis
    proof
      assume "close_session ?p sid S1 = close_session True sid S1"
      then have "server_run (thread_view ss c None S) (?es @ [Close c]) \<lparr>registry = S', sessions = ss(c := None)\<rparr>"
        using sample_run_close [OF run, of c sid] S' by simp
      with all show ?thesis by blast
    next
      assume p: "\<not> ?p \<and> \<not> poisoned S1 \<and> poisoned (close_session False sid S1)"
      then have "server_step ?t (ClosePanic c) \<lparr>registry = S', sessions = ss(c := None)\<rparr>"
        using server_step.close_panic [of ?t c sid] S' by simp
      moreover have "fails (console E) W W'" using p l assms Some client_loop_run [OF l, where c = c and ss = ss]
        by (auto simp: fails_def handle_client_def intro: exI [of _ "tick W1"])
      ultimately show ?thesis using run_snoc [OF run] all by blast
    qed
  qed
  with cs show ?thesis by blast
qed

text \<open>A client that registers, on a connection that delivers its message in one read.\<close>

definition registering_env :: "string env" where
  "registering_env = sample_env\<lparr>request_from_slice := (\<lambda>_. Some (Register (sample_peer 1))),
     tcp_chunk := (\<lambda>_. 4096)\<rparr>"

theorem handle_client_refines_witness:
  "server_run \<lparr>registry = server_new, sessions = Map.empty(0 \<mapsto> None)\<rparr>
     [Request 0 (Register (sample_peer 1)), Close 0]
     \<lparr>registry = fst (handle_client registering_env \<lparr>s_addr = ''a'', s_in = [1, 2]\<rparr> server_new sample_world),
      sessions = Map.empty\<rparr>"
proof -
  let ?E = registering_env and ?S = "\<lparr>s_addr = ''a'', s_in = [1, 2]\<rparr>"
  obtain S' W' where h: "handle_client ?E ?S server_new sample_world = (S', W')" by fastforce
  have io: "\<not> fails (tcp_read ?E) U V" "\<not> fails (console ?E) U V" "read_size ?E = (\<lambda>_. 4096)" for U V
    by (auto simp: fails_def registering_env_def sample_env_def read_size_def)
  from handle_client_refines [OF h, where ss = Map.empty and c = 0] io obtain ns :: "nat list" where
    c: "([1, 2] :: byte list) = concat (pieces (map (\<lambda>_. 4096) ns) [1, 2])"
      "[] \<notin> set (pieces (map (\<lambda>_. 4096) ns) ([1, 2] :: byte list))"
    and run: "server_run \<lparr>registry = server_new, sessions = Map.empty(0 \<mapsto> None)\<rparr>
      (map (event_for ?E 0) (pieces (map (\<lambda>_. 4096) ns) [1, 2]) @ [Close 0])
      \<lparr>registry = S', sessions = Map.empty\<rparr>" by auto
  have p: "pieces (map (\<lambda>_. 4096) ns) [1, 2] = [[1, 2] :: byte list]"
  proof (cases ns)
    case (Cons n ms)
    with c(2) show ?thesis by (cases ms) simp_all
  qed (use c(1) in simp)
  have "event_for ?E 0 bs = Request 0 (Register (sample_peer 1))" for bs
    by (simp add: event_for_def registering_env_def)
  with run p h show ?thesis by simp
qed

end
