(* ===== verification/Routing_Props.thy ===== *)
theory Routing_Props
  imports Network_Props
begin

text \<open>
  The properties of the bundle manager, the routing engine and the periodic work.
\<close>

section \<open>Acknowledgements at the bundle manager\<close>

text \<open>
  C23. On a working disk an acknowledgement of \<open>d\<close> removes the bundle \<open>d\<close>; it is
  stored, and reported as first seen, if no acknowledgement of \<open>d\<close> is stored and there is
  room. A second acknowledgement of \<open>d\<close>, under whatever identifier, is then reported as
  seen and changes nothing.
\<close>

theorem second_ack_is_ignored:
  assumes "serde_laws E" and "io_ok E" and "b_kind ack = Ack d" and "b_id ack \<noteq> d"
    and "handle_incoming_ack E ack m = Some (True, m')"
    and "b_kind ack2 = Ack d" and "handle_incoming_ack E ack2 m' = Some (r, m'')"
  shows "\<not> has_id (bm_view E m') d \<and>
    ack \<in> set (bm_view E m') \<and>
    \<not> r \<and>
    (bm_view E m'' = bm_view E m')"
proof -
  note x = handle_incoming_ack_exact [OF assms(1,2,3,5)]
  let ?w = "remove_id d (bm_view E m)"
  have "\<not> (has_ack ?w d \<or> has_id ?w (b_id ack))" using x(1) by auto
  from x(2) [OF this] obtain t where v: "bm_view E m' = unexpired E t ?w @ [ack]" by auto
  have nid: "\<not> has_id (bm_view E m') d"
    using handle_ack_view(1) [OF assms(1,2,3,4,5)] assms(4) by (auto simp: has_id_iff)
  have mem: "ack \<in> set (bm_view E m')" by (simp add: v)
  have same: "remove_id d (bm_view E m') = bm_view E m'"
    using nid unfolding remove_id_def by (intro filter_True) (auto simp: has_id_iff)
  have "has_ack (bm_view E m') d" using has_ackI [OF mem assms(3)] .
  with handle_incoming_ack_exact(1) [OF assms(1,2,6,7)] same have "\<not> r \<and> bm_view E m'' = bm_view E m'" by simp
  with nid mem show ?thesis by blast
qed

definition sample_ack :: Bundle where
  "sample_ack = sample_bundle\<lparr>b_id := 9, b_kind := Ack 7\<rparr>"

lemma sample_first_ack: "\<exists>m'. handle_incoming_ack sample_env sample_ack (sample_manager, sample_world) = Some (True, m')"
proof -
  have k: "b_kind sample_ack = Ack 7" by (simp add: sample_ack_def)
  have ok: "manager_ok sample_env (sample_manager, sample_world)" by (rule sample_manager_ok [OF sample_serde_laws])
  obtain r m' where h: "handle_incoming_ack sample_env sample_ack (sample_manager, sample_world) = Some (r, m')"
    using handle_incoming_ack_total [OF ok] by (metis not_None_eq surj_pair)
  from handle_incoming_ack_exact(2) [OF sample_serde_laws sample_io_ok k h]
  have r by (auto simp: remove_id_def has_ack_def has_id_def)
  with h show ?thesis by auto
qed

theorem second_ack_is_ignored_witness:
  "\<exists>m' r m''. handle_incoming_ack sample_env sample_ack (sample_manager, sample_world) = Some (True, m') \<and>
     handle_incoming_ack sample_env (sample_ack\<lparr>b_id := 10\<rparr>) m' = Some (r, m'') \<and> \<not> r \<and> sample_ack \<in> set (bm_view sample_env m'')"
proof -
  obtain m' where h: "handle_incoming_ack sample_env sample_ack (sample_manager, sample_world) = Some (True, m')"
    using sample_first_ack by blast
  have "manager_ok sample_env m'"
    using handle_incoming_ack_ok [OF sample_manager_ok [OF sample_serde_laws] h] by blast
  from handle_incoming_ack_total [OF this] obtain r m'' where
    h2: "handle_incoming_ack sample_env (sample_ack\<lparr>b_id := 10\<rparr>) m' = Some (r, m'')"
    by (metis not_None_eq surj_pair)
  have k: "b_kind sample_ack = Ack 7" "b_id sample_ack \<noteq> 7" "b_kind (sample_ack\<lparr>b_id := 10\<rparr>) = Ack 7"
    by (simp_all add: sample_ack_def)
  note r0 = second_ack_is_ignored [OF sample_serde_laws sample_io_ok k(1,2) h k(3) h2]
  note r = r0 [THEN conjunct1] r0 [THEN conjunct2, THEN conjunct1] r0 [THEN conjunct2, THEN conjunct2, THEN conjunct1] r0 [THEN conjunct2, THEN conjunct2, THEN conjunct2]
  have "sample_ack \<in> set (bm_view sample_env m'')" using r(2,4) by simp
  with h h2 r(3) show ?thesis by blast
qed

text \<open>
  C32. \<open>upsert_bundle\<close> on a working disk: a bundle whose identifier is stored is replaced in
  place, any other is stored if \<open>save_bundle\<close> admits it after the expired bundles are gone;
  a data bundle that is acknowledged is neither replaced nor stored.
\<close>

theorem upsert_bundle_correct:
  assumes "serde_laws E" and "io_ok E" and "bm_upsert_bundle E b m = Some (r, m')"
  defines "v \<equiv> bm_view E m"
  shows "(has_id v (b_id b) \<longrightarrow> bm_view E m' =
      (if is_Data (b_kind b) \<and> has_ack v (b_id b) then v
       else update_first (\<lambda>x. b_id x = b_id b) (\<lambda>_. b) v)) \<and>
    (\<not> has_id v (b_id b) \<longrightarrow> (\<exists>t. bm_view E m' =
      (let kept = unexpired E t v
       in if is_Data (b_kind b) \<and> has_ack kept (b_id b) \<or> bm_cap m \<le> length kept then kept else kept @ [b])))"
proof -
  note x = upsert_view_exact [OF assms(1-3), folded v_def]
  have g1: "has_id v (b_id b) \<Longrightarrow> bm_view E m' =
      (if is_Data (b_kind b) \<and> has_ack v (b_id b) then v
       else update_first (\<lambda>x. b_id x = b_id b) (\<lambda>_. b) v)"
    using x(1) by (simp add: rejects_def replace_bundle_def)
  have g2: "\<exists>t. bm_view E m' =
      (let kept = unexpired E t v
       in if is_Data (b_kind b) \<and> has_ack kept (b_id b) \<or> bm_cap m \<le> length kept then kept else kept @ [b])"
    if n: "\<not> has_id v (b_id b)"
  proof -
    from x(2) [OF n] obtain t where t: "bm_view E m' =
        (if refuses (unexpired E t v) (bm_cap m) b then unexpired E t v else unexpired E t v @ [b])" by blast
    have "\<not> has_id (unexpired E t v) (b_id b)" using n unexpired_ids [of E t v] by blast
    then show ?thesis
      using t by (intro exI [of _ t]) (simp add: refuses_def Let_def)
  qed
  from g1 g2 show ?thesis by blast
qed

theorem upsert_bundle_correct_witness:
  "\<exists>r m'. bm_upsert_bundle sample_env sample_bundle (sample_manager, sample_world) = Some (r, m') \<and>
     bm_view sample_env m' = [sample_bundle]"
proof -
  obtain r m' where u: "bm_upsert_bundle sample_env sample_bundle (sample_manager, sample_world) = Some (r, m')"
    using upsert_total [OF sample_manager_ok [OF sample_serde_laws]] by (metis not_None_eq surj_pair)
  have n: "\<not> has_id (bm_view sample_env (sample_manager, sample_world)) (b_id sample_bundle)" by (simp add: has_id_def)
  from upsert_bundle_correct [OF sample_serde_laws sample_io_ok u, THEN conjunct2, rule_format, OF n] u show ?thesis
    by (auto simp: has_ack_def)
qed

section \<open>Routing\<close>

text \<open>
  C5. Nothing is invented: in any environment, every bundle in the store of a node after
  \<open>route_bundle\<close>, and every bundle of a frame it has written, is one it stored before or the
  routed bundle, with some status, or, only at the destination of a data bundle, an
  acknowledgement of it. The store stays well formed and other files are not touched.
\<close>

theorem routing_invents_nothing:
  assumes "serde_laws E" and "well_formed (bm_view E (bundle_manager e, W)) (bm_cap (bundle_manager e, W))"
    and "route_bundle E e b W = Some (e', b', W')"
  defines "held \<equiv> {x\<lparr>b_status := st\<rparr> | x st. x = b \<or> x \<in> set (bm_view E (bundle_manager e, W))}"
    and "acks \<equiv> {a. \<not> is_Ack (b_kind b) \<and> eng_node_id e = n_id (b_destination b) \<and> b_kind a = Ack (b_id b) \<and>
      b_source a = b_destination b \<and> b_destination a = b_source b}"
  shows "set (bm_view E (bundle_manager e', W')) \<subseteq> held \<union> acks \<and>
    (\<exists>fs. frames W' = frames W @ fs \<and> snd ` set fs \<subseteq> held \<union> acks) \<and>
    well_formed (bm_view E (bundle_manager e', W')) (bm_cap (bundle_manager e, W)) \<and>
    (p \<noteq> bundles_file (storage_dir (bm_storage (bundle_manager e))) \<longrightarrow>
      p \<noteq> tmp_file (storage_dir (bm_storage (bundle_manager e))) \<longrightarrow> disk W' p = disk W p)"
proof -
  have ok: "manager_ok E (eng_state e W)" using assms(1,2) by (simp add: manager_ok_def)
  note st = route_bundle_confined(1) [OF ok assms(3)]
  have sub: "may_hold (set (bm_view E (eng_state e W))) (eng_node_id e) b \<subseteq> held \<union> acks"
    by (auto simp: may_hold_def held_def acks_def acknowledges_def)
  from st sub have g1: "set (bm_view E (bundle_manager e', W')) \<subseteq> held \<union> acks"
    unfolding stays_def confined_def by blast
  from st sub have g2: "\<exists>fs. frames W' = frames W @ fs \<and> snd ` set fs \<subseteq> held \<union> acks"
    unfolding stays_def node_step_def by force
  have "bm_cap (eng_state e' W') = bm_cap (eng_state e W)" using st by (simp add: stays_def node_step_def)
  moreover have "well_formed (bm_view E (eng_state e' W')) (bm_cap (eng_state e' W'))"
    using stays_confined [OF st] by (simp only: confined_def manager_ok_def)
  ultimately have g3: "well_formed (bm_view E (bundle_manager e', W')) (bm_cap (bundle_manager e, W))" by simp
  from st have g4: "p \<noteq> bundles_file (storage_dir (bm_storage (bundle_manager e))) \<Longrightarrow>
      p \<noteq> tmp_file (storage_dir (bm_storage (bundle_manager e))) \<Longrightarrow> disk W' p = disk W p"
    by (simp add: stays_def node_step_def)
  from g1 g2 g3 g4 show ?thesis by blast
qed

text \<open>
  C31. \<open>route_bundle\<close> returns, without a panic, for every bundle, every store and every
  behaviour of the disk and the network.
\<close>

theorem routing_returns:
  assumes "serde_laws E" and "well_formed (bm_view E (bundle_manager e, W)) (bm_cap (bundle_manager e, W))"
  shows "\<exists>e' b' W'. route_bundle E e b W = Some (e', b', W')"
proof -
  have "manager_ok E (eng_state e W)" using assms by (simp add: manager_ok_def)
  from route_bundle_total [OF this] show ?thesis by (metis not_None_eq surj_pair)
qed

theorem routing_returns_witness:
  "\<exists>e' b' W'. route_bundle sample_env sample_engine sample_bundle sample_world = Some (e', b', W')"
  by (rule routing_returns [OF sample_serde_laws]) (simp add: well_formed_Nil)

lemma sample_route: "\<exists>e' b' W'. route_bundle sample_env sample_engine b sample_world = Some (e', b', W')"
  using route_bundle_total [of sample_env sample_engine sample_world b] sample_manager_ok [OF sample_serde_laws]
  by (metis not_None_eq surj_pair sample_engine_simps(6))

theorem routing_invents_nothing_witness:
  "\<exists>e' b' W'. route_bundle sample_env sample_engine sample_bundle sample_world = Some (e', b', W') \<and>
     well_formed (bm_view sample_env (bundle_manager e', W')) 5"
proof -
  obtain e' b' W' where r: "route_bundle sample_env sample_engine sample_bundle sample_world = Some (e', b', W')"
    using sample_route by blast
  from routing_invents_nothing [OF sample_serde_laws _ r, THEN conjunct2, THEN conjunct2, THEN conjunct1] r show ?thesis by (auto simp: well_formed_Nil)
qed

end
