(* ===== verification/Engine_Props.thy ===== *)
theory Engine_Props
  imports Routing_Props
begin

text \<open>
  The properties of the branches of \<open>route_bundle\<close> and of the periodic work, on a node
  whose disk works.
\<close>

section \<open>A node with bundles in its store\<close>

definition world_holding :: "string env \<Rightarrow> Bundle list \<Rightarrow> world" where
  "world_holding E bs = sample_world\<lparr>disk := [bundles_file ''/n'' \<mapsto> the (payload_of E bs)]\<rparr>"

lemma world_holding_view:
  assumes "serde_laws E"
  shows "bm_view E (sample_manager, world_holding E bs) = bs"
proof -
  obtain c where c: "payload_of E bs = Some c" using payload_total [OF assms] .
  show ?thesis
    by (simp add: bm_view_def bm_store_def store_view_def disk_bundles_def sample_manager_def world_holding_def c
        payload_parse [OF assms c])
qed

lemma world_holding_ok:
  assumes "serde_laws E" and "length bs \<le> 5" and "distinct (map b_id bs)"
  shows "manager_ok E (sample_manager, world_holding E bs)"
  using assms by (simp add: manager_ok_def world_holding_view well_formed_def)

lemma world_holding_simps [simp]: "tick (world_holding E bs) = 0" "frames (world_holding E bs) = []"
  by (simp_all add: world_holding_def sample_world_def)

text \<open>Reading the clock and asking the registry, which every branch of a live bundle does first.\<close>

lemma after_query:
  assumes "manager_ok E (eng_state e W)" and "connected_peers E e i (tock W) = (ps, W1)"
  shows "manager_ok E (eng_state e W1)" and "bm_view E (eng_state e W1) = bm_view E (eng_state e W)"
    and "bm_cap (eng_state e W1) = bm_cap (eng_state e W)" and "tick W \<le> tick W1" and "frames W1 = frames W"
proof -
  note n = net_step_trans_same [OF net_step_tock connected_peers_net_step [OF assms(2)], where B = "{}"]
  show "manager_ok E (eng_state e W1)" using net_step_view(2) [OF n] assms(1) by blast
  show "bm_view E (eng_state e W1) = bm_view E (eng_state e W)" by (rule net_step_view(1) [OF n])
  show "bm_cap (eng_state e W1) = bm_cap (eng_state e W)" by (simp add: bm_cap_def)
  show "tick W \<le> tick W1" "frames W1 = frames W" using n by (auto simp: net_step_def)
qed

section \<open>The branches of \<open>route_bundle\<close>\<close>

text \<open>
  C26. A bundle that is no acknowledgement and has expired is taken out of the store, returned
  as expired, and not sent to anyone.
\<close>

theorem expired_bundle_is_dropped:
  assumes "serde_laws E" and "io_ok E" and "\<not> is_Ack (b_kind b)"
    and "fst (is_expired E b W)" and "route_bundle E e b W = Some (e', b', W')"
  shows "(bm_view E (bundle_manager e', W') = remove_id (b_id b) (bm_view E (bundle_manager e, W))) \<and>
    (b' = b\<lparr>b_status := Expired\<rparr>) \<and>
    (frames W' = frames W)"
  using route_expired_exact [OF assms(1-3) _ assms(5)] assms(4) by (simp add: is_expired_eq)

definition old_bundle :: Bundle where
  "old_bundle = sample_bundle\<lparr>b_timestamp := 0\<rparr>"

lemma holding_one:
  assumes "b = sample_bundle \<or> b = old_bundle"
  shows "manager_ok sample_env (sample_manager, world_holding sample_env [b])"
  using sample_serde_laws by (intro world_holding_ok) simp_all

lemma holding_one_route:
  assumes "b = sample_bundle \<or> b = old_bundle"
  shows "\<exists>e' b' W'. route_bundle sample_env sample_engine x (world_holding sample_env [b]) = Some (e', b', W')"
  using route_bundle_total [of sample_env sample_engine _ x] holding_one [OF assms]
  by (metis not_None_eq surj_pair sample_engine_simps(6))

theorem expired_bundle_is_dropped_witness:
  "\<exists>e' b' W'. route_bundle sample_env sample_engine old_bundle (world_holding sample_env [old_bundle]) = Some (e', b', W') \<and>
     bm_view sample_env (bundle_manager e', W') = [] \<and> b_status b' = Expired \<and> frames W' = []"
proof -
  let ?W = "world_holding sample_env [old_bundle]"
  obtain e' b' W' where r: "route_bundle sample_env sample_engine old_bundle ?W = Some (e', b', W')"
    using holding_one_route by blast
  have x: "fst (is_expired sample_env old_bundle ?W)"
    by (simp add: is_expired_eq expired_at_def sint_u64 old_bundle_def) (simp add: sample_env_def sample_bundle_def)
  have k: "\<not> is_Ack (b_kind old_bundle)" by (simp add: sample_bundle_def old_bundle_def)
  note d0 = expired_bundle_is_dropped [OF sample_serde_laws sample_io_ok k x r]
  note d = d0 [THEN conjunct1] d0 [THEN conjunct2, THEN conjunct1] d0 [THEN conjunct2, THEN conjunct2]
  have "bm_view sample_env (bundle_manager e', W') = []"
    using d(1) by (simp add: world_holding_view [OF sample_serde_laws] remove_id_def)
  with d(2,3) r show ?thesis by simp
qed

text \<open>
  C4. Routing an acknowledgement of \<open>d\<close>, at the node it is meant for or at any other,
  removes the bundle \<open>d\<close> from the store, and if there is room the store holds an
  acknowledgement of \<open>d\<close> afterwards, so that \<open>d\<close> is not taken in again.
\<close>

theorem acknowledgement_settles:
  assumes "manager_ok E (bundle_manager e, W)" and "io_ok E" and "b_kind b = Ack d" and "b_id b \<noteq> d"
    and "route_bundle E e b W = Some (e', b', W')"
  shows "\<not> has_id (bm_view E (bundle_manager e', W')) d \<and>
    (length (bm_view E (bundle_manager e, W)) < bm_cap (bundle_manager e, W) \<longrightarrow>
      \<not> has_id (bm_view E (bundle_manager e, W)) (b_id b) \<longrightarrow> has_ack (bm_view E (bundle_manager e', W')) d)"
  using route_ack_settles [OF assms] by blast

theorem acknowledgement_settles_witness:
  "\<exists>e' b' W'. route_bundle sample_env sample_engine sample_ack (world_holding sample_env [sample_bundle]) = Some (e', b', W') \<and>
     \<not> has_id (bm_view sample_env (bundle_manager e', W')) (b_id sample_bundle) \<and>
     has_ack (bm_view sample_env (bundle_manager e', W')) (b_id sample_bundle)"
proof -
  let ?W = "world_holding sample_env [sample_bundle]"
  obtain e' b' W' where r: "route_bundle sample_env sample_engine sample_ack ?W = Some (e', b', W')"
    using holding_one_route by blast
  have k: "b_kind sample_ack = Ack (b_id sample_bundle)" "b_id sample_ack \<noteq> b_id sample_bundle"
    by (simp_all add: sample_ack_def sample_bundle_def)
  have ok: "manager_ok sample_env (bundle_manager sample_engine, ?W)" using holding_one by simp
  note a0 = acknowledgement_settles [OF ok sample_io_ok k r]
  note a = a0 [THEN conjunct1] a0 [THEN conjunct2, rule_format]
  have "has_ack (bm_view sample_env (bundle_manager e', W')) (b_id sample_bundle)"
    using k(2) by (intro a(2)) (simp_all add: world_holding_view [OF sample_serde_laws] has_id_def)
  with r a(1) show ?thesis by blast
qed

lemma route_acknowledges:
  assumes "manager_ok E (bundle_manager e, W)" and "io_ok E" and "\<not> is_Ack (b_kind b)"
    and "\<not> fst (is_expired E b W)" and "eng_node_id e = n_id (b_destination b)"
    and "length (bm_view E (bundle_manager e, W)) + 1 < bm_cap (bundle_manager e, W)"
    and "\<And>n. tick W \<le> n \<Longrightarrow> new_v4 E n \<notin> insert (b_id b) (b_id ` set (bm_view E (bundle_manager e, W)))"
    and "route_bundle E e b W = Some (e', b', W')"
  shows "\<exists>a \<in> set (bm_view E (bundle_manager e', W')). b_kind a = Ack (b_id b) \<and>
    b_source a = b_destination b \<and> b_destination a = b_source b \<and>
    b_id a \<notin> b_id ` set (bm_view E (bundle_manager e, W))"
proof -
  obtain ps W1 where c: "connected_peers E e (n_id (b_source b)) (tock W) = (ps, W1)" by fastforce
  from assms(3-5,8) c have r: "route_delivered E e b ps W1 = Some (e', b', W')"
    by (simp add: route_bundle_def route_data_def is_expired_eq)
  note q = after_query [OF assms(1) c]
  from route_delivered_acks [OF q(1) assms(2) _ _ r] assms(6,7) q(2-4) show ?thesis
    by (auto simp: acknowledges_def)
qed

text \<open>
  C25. At its destination a data bundle that has not expired is acknowledged every time it is
  routed: the store then holds an acknowledgement of it, addressed to its source, under an identifier
  that no stored bundle had. In particular a bundle that is already acknowledged gets another
  one.
\<close>

theorem every_arrival_is_acknowledged:
  assumes "manager_ok E (bundle_manager e, W)" and "io_ok E" and "\<not> is_Ack (b_kind b)"
    and "\<not> fst (is_expired E b W)" and "eng_node_id e = n_id (b_destination b)"
    and "length (bm_view E (bundle_manager e, W)) + 1 < bm_cap (bundle_manager e, W)"
    and "\<And>n. tick W \<le> n \<Longrightarrow> new_v4 E n \<notin> insert (b_id b) (b_id ` set (bm_view E (bundle_manager e, W)))"
    and "route_bundle E e b W = Some (e', b', W')"
  shows "\<exists>a \<in> set (bm_view E (bundle_manager e', W')). b_kind a = Ack (b_id b) \<and>
    b_source a = b_destination b \<and> b_destination a = b_source b \<and>
    b_id a \<notin> b_id ` set (bm_view E (bundle_manager e, W))"
  using route_acknowledges [OF assms] .

definition one_id_env :: "string env" where
  "one_id_env = sample_env\<lparr>new_v4 := (\<lambda>_. 1000)\<rparr>"

lemma one_id_env_laws: "serde_laws one_id_env" "io_ok one_id_env" "new_v4 one_id_env n = 1000"
  using sample_serde_laws sample_io_ok by (simp_all add: one_id_env_def serde_laws_def io_ok_def)

theorem every_arrival_is_acknowledged_witness:
  "\<exists>e' b' W' a. route_bundle one_id_env sample_engine sample_bundle sample_world = Some (e', b', W') \<and>
     a \<in> set (bm_view one_id_env (bundle_manager e', W')) \<and> b_kind a = Ack 7"
proof -
  note x = one_id_env_laws
  have ok: "manager_ok one_id_env (bundle_manager sample_engine, sample_world)"
    using sample_manager_ok [OF x(1)] by simp
  obtain e' b' W' where r: "route_bundle one_id_env sample_engine sample_bundle sample_world = Some (e', b', W')"
    using route_bundle_total [of one_id_env sample_engine sample_world] ok by (metis not_None_eq surj_pair)
  have b: "\<not> is_Ack (b_kind sample_bundle)" "\<not> fst (is_expired one_id_env sample_bundle sample_world)"
    "eng_node_id sample_engine = n_id (b_destination sample_bundle)" "b_id sample_bundle = 7"
    by (simp_all add: is_expired_eq expired_at_def sint_u64 one_id_env_def sample_env_def sample_bundle_def
        sample_node_def sample_world_def)
  have "\<exists>a \<in> set (bm_view one_id_env (bundle_manager e', W')). b_kind a = Ack (b_id sample_bundle) \<and>
    b_source a = b_destination sample_bundle \<and> b_destination a = b_source sample_bundle \<and>
    b_id a \<notin> b_id ` set (bm_view one_id_env (bundle_manager sample_engine, sample_world))"
    by (rule every_arrival_is_acknowledged [OF ok x(2) b(1-3) _ _ r]) (simp_all add: x(3) b(4))
  with r b(4) show ?thesis by auto
qed

text \<open>
  C24. A data bundle for another node is kept: if it has not expired, is not acknowledged and
  there is room, it is in the store when \<open>route_bundle\<close> returns, with the status the caller
  sees, pending or in transit, whatever the network did.
\<close>

theorem onward_bundle_is_kept:
  assumes "manager_ok E (bundle_manager e, W)" and "io_ok E" and "\<not> is_Ack (b_kind b)"
    and "\<not> fst (is_expired E b W)" and "eng_node_id e \<noteq> n_id (b_destination b)"
    and "length (bm_view E (bundle_manager e, W)) < bm_cap (bundle_manager e, W)"
    and "\<not> has_id (bm_view E (bundle_manager e, W)) (b_id b)"
    and "\<not> has_ack (bm_view E (bundle_manager e, W)) (b_id b)"
    and "route_bundle E e b W = Some (e', b', W')"
  shows "b' \<in> set (bm_view E (bundle_manager e', W')) \<and>
    (b' = b \<or> b' = b\<lparr>b_status := InTransit\<rparr>)"
proof -
  obtain ps W1 where c: "connected_peers E e (n_id (b_source b)) (tock W) = (ps, W1)" by fastforce
  from assms(3-5,9) c have r: "route_onward E e b ps W1 = Some (e', b', W')"
    by (simp add: route_bundle_def route_data_def is_expired_eq)
  note q = after_query [OF assms(1) c]
  note o = route_onward_stores [OF q(1) assms(2) _ _ _ r, unfolded q(2,3)]
  show ?thesis using o assms(6-8) by simp
qed

lemma sample_live: "fst (is_expired sample_env sample_bundle sample_world) = False" "is_Data (b_kind sample_bundle)"
  by (simp_all add: is_expired_eq expired_at_def sint_u64 sample_env_def sample_bundle_def sample_world_def)

definition carrier :: RoutingEngine where
  "carrier = sample_engine\<lparr>eng_node_id := 3\<rparr>"

lemma carrier_ok: "manager_ok sample_env (bundle_manager carrier, sample_world)"
  using sample_manager_ok [OF sample_serde_laws] by (simp add: carrier_def)

lemma carrier_routes: "\<exists>e' b' W'. route_bundle sample_env carrier b sample_world = Some (e', b', W')"
  using route_bundle_total [OF carrier_ok] by (metis not_None_eq surj_pair)

theorem onward_bundle_is_kept_witness:
  "\<exists>e' b' W'. route_bundle sample_env carrier sample_bundle sample_world = Some (e', b', W') \<and>
     b' \<in> set (bm_view sample_env (bundle_manager e', W')) \<and> b_id b' = 7"
proof -
  obtain e' b' W' where r: "route_bundle sample_env carrier sample_bundle sample_world = Some (e', b', W')"
    using carrier_routes by blast
  have k: "\<not> is_Ack (b_kind sample_bundle)" "b_id sample_bundle = 7"
    "eng_node_id carrier \<noteq> n_id (b_destination sample_bundle)"
    by (simp_all add: sample_bundle_def sample_node_def carrier_def)
  have v: "bm_view sample_env (bundle_manager carrier, sample_world) = []"
    "bm_cap (bundle_manager carrier, sample_world) = 5" by (simp_all add: carrier_def)
  note o0 = onward_bundle_is_kept [OF carrier_ok sample_io_ok k(1) _ k(3) _ _ _ r, unfolded v sample_live]
  note o = o0 [THEN conjunct1] o0 [THEN conjunct2]
  have "b' \<in> set (bm_view sample_env (bundle_manager e', W'))" "b' = sample_bundle \<or> b' = sample_bundle\<lparr>b_status := InTransit\<rparr>"
    using o by (simp_all add: has_id_def has_ack_def)
  with r k(2) show ?thesis by auto
qed

text \<open>A network on which the registry reports the node 2 and every message can be sent.\<close>

definition met_peer :: PeerRecord where
  "met_peer = \<lparr>p_node = sample_node 2 ''bob'', p_status = Connected\<rparr>"

definition meeting_env :: "string env" where
  "meeting_env = sample_env\<lparr>response_from_slice := (\<lambda>_. Some (Peers [met_peer]))\<rparr>"

lemma meeting_env_laws: "serde_laws meeting_env" "io_ok meeting_env" "net_ok meeting_env"
  using sample_serde_laws sample_io_ok sample_net_ok
  by (simp_all add: meeting_env_def serde_laws_def io_ok_def net_ok_def)

lemma meeting_peers: "\<exists>W'. connected_peers meeting_env carrier i W = ([met_peer], W')"
proof -
  have n: "tcp_connect meeting_env n a" "tcp_write meeting_env n = None" "tcp_read meeting_env n"
    "response_from_slice meeting_env bs = Some (Peers [met_peer])" for n a bs
    by (simp_all add: meeting_env_def sample_env_def)
  have m: "n_id (p_node met_peer) \<noteq> eng_node_id carrier"
    by (simp add: met_peer_def sample_node_def carrier_def)
  show ?thesis
    by (simp add: connected_peers_def get_connected_peers_from_server_def net_ok_connect [OF meeting_env_laws(3)]
        stream_write_all_def stream_read_def Let_def n m)
qed

lemma meeting_sv: "fst (get_peer_summary_vector meeting_env e a p V) = []"
proof -
  have n: "tcp_write meeting_env n = None" "tcp_incoming meeting_env n a = []" for n a
    by (simp_all add: meeting_env_def sample_env_def)
  show ?thesis
    by (simp add: get_peer_summary_vector_def request_peer_sv_def net_ok_connect [OF meeting_env_laws(3)]
        stream_write_all_def stream_read_exact_def Let_def n split: option.splits)
qed

lemma meeting_ok: "manager_ok meeting_env (bundle_manager carrier, sample_world)"
  using sample_manager_ok [OF meeting_env_laws(1)] by (simp add: carrier_def)

lemma meeting_live:
  "\<not> is_Ack (b_kind sample_bundle)" "\<not> fst (is_expired meeting_env sample_bundle sample_world)"
  "eng_node_id carrier \<noteq> n_id (b_destination sample_bundle)" "b_status sample_bundle = Pending"
  by (simp_all add: is_expired_eq expired_at_def sint_u64 meeting_env_def sample_env_def sample_bundle_def
      sample_node_def sample_world_def carrier_def)

lemma carrier_store: "bm_view E (bundle_manager carrier, sample_world) = []" "bm_cap (bundle_manager carrier, W) = 5"
  by (simp_all add: carrier_def)

lemma meeting_route:
  "\<exists>e' b' W'. route_bundle meeting_env carrier sample_bundle sample_world = Some (e', b', W') \<and>
     (peer_socket met_peer, sample_bundle) \<in> set (frames W')"
proof -
  obtain W1 where c: "connected_peers meeting_env carrier (n_id (b_source sample_bundle)) (tock sample_world) = ([met_peer], W1)"
    using meeting_peers by blast
  note q = after_query [OF meeting_ok c]
  obtain e' b' W' where r: "route_onward meeting_env carrier sample_bundle [met_peer] W1 = Some (e', b', W')"
    using route_onward_total [OF q(1)] by (metis not_None_eq surj_pair)
  have "route_bundle meeting_env carrier sample_bundle sample_world = Some (e', b', W')"
    using r c meeting_live(1-3) by (simp add: route_bundle_def route_data_def is_expired_eq)
  moreover have "(peer_socket met_peer, sample_bundle) \<in> new_frames W1 W'"
    using route_onward_reaches [OF q(1) meeting_env_laws(2,3) _ _ _ meeting_live(4) r, of met_peer] q(2,3)
    by (simp add: carrier_store has_id_def has_ack_def named_by_def meeting_sv)
  then have "(peer_socket met_peer, sample_bundle) \<in> set (frames W')" using new_frames_subset by blast
  ultimately show ?thesis by blast
qed

text \<open>
  C27. Carrying a data bundle on, a node writes to the network only bundles it stores or the
  bundle routed, and of these only pending ones: what is in transit is left to the retry
  rounds, what is delivered is not sent again.
\<close>

theorem only_pending_bundles_leave:
  assumes "manager_ok E (bundle_manager e, W)" and "\<not> is_Ack (b_kind b)"
    and "eng_node_id e \<noteq> n_id (b_destination b)" and "route_bundle E e b W = Some (e', b', W')"
    and "frames W' = frames W @ fs" and "(a, x) \<in> set fs"
  shows "(b_status x = Pending) \<and>
    (x = b \<or> x \<in> set (bm_view E (bundle_manager e, W)))"
proof -
  have "b_status x = Pending \<and> (x = b \<or> x \<in> set (bm_view E (eng_state e W)))"
  proof (cases "expired_at E (now E (tick W)) b")
    case True
    with assms(2,4) obtain r M where
      d: "bm_delete_bundle E (b_id b) (eng_state e (tock W)) = Some (r, (M, W'))"
      by (auto simp: route_bundle_def route_data_def is_expired_eq bind_eq_Some_conv)
    have "bm_step (eng_state e (tock W)) (M, W')" using mgr.delete_law [OF manager_okD(1) [OF assms(1)] d] by blast
    from bm_step_node_step [OF this, of "{}"] assms(5,6) show ?thesis by (simp add: node_step_def)
  next
    case False
    obtain ps W1 where c: "connected_peers E e (n_id (b_source b)) (tock W) = (ps, W1)" by fastforce
    from False assms(2-4) c have r: "route_onward E e b ps W1 = Some (e', b', W')"
      by (simp add: route_bundle_def route_data_def is_expired_eq)
    note q = after_query [OF assms(1) c]
    obtain gs where "frames W' = frames W1 @ gs"
      and gs: "\<forall>x \<in> snd ` set gs. b_status x = Pending \<and> x \<in> insert b (set (bm_view E (eng_state e W1)))"
      using route_onward_frames [OF q(1) r] .
    with assms(5) q(5) have "gs = fs" by simp
    with assms(6) have "x \<in> snd ` set gs" by force
    from bspec [OF gs this] q(2) show ?thesis by simp
  qed
  then show ?thesis .
qed

theorem only_pending_bundles_leave_witness:
  "\<exists>e' b' W' a x. route_bundle meeting_env carrier sample_bundle sample_world = Some (e', b', W') \<and>
     (a, x) \<in> set (frames W') \<and> b_status x = Pending \<and> x = sample_bundle"
proof -
  obtain e' b' W' where r: "route_bundle meeting_env carrier sample_bundle sample_world = Some (e', b', W')"
    and m: "(peer_socket met_peer, sample_bundle) \<in> set (frames W')" using meeting_route by blast
  have f: "frames W' = frames sample_world @ frames W'" by (simp add: sample_world_def)
  note o0 = only_pending_bundles_leave [OF meeting_ok meeting_live(1,3) r f m]
  note o = o0 [THEN conjunct1] o0 [THEN conjunct2]
  show ?thesis using r m o(1) by blast
qed

text \<open>
  C8. Progress: on a working disk and network, carrying on a pending data bundle that is new
  to the store writes a frame of it to every peer the registry reports as connected, unless
  that very peer names it in a summary vector during the call; and no frame of the bundle goes
  to a peer that names it whenever it is asked. What the other peers hold makes no difference.
\<close>

theorem every_peer_is_served:
  assumes "manager_ok E (bundle_manager e, W)" and "io_ok E" and "net_ok E" and "\<not> is_Ack (b_kind b)"
    and "\<not> fst (is_expired E b W)" and "eng_node_id e \<noteq> n_id (b_destination b)" and "b_status b = Pending"
    and "length (bm_view E (bundle_manager e, W)) < bm_cap (bundle_manager e, W)"
    and "\<not> has_id (bm_view E (bundle_manager e, W)) (b_id b)"
    and "\<not> has_ack (bm_view E (bundle_manager e, W)) (b_id b)"
    and "route_bundle E e b W = Some (e', b', W')"
    and "p \<in> set (fst (connected_peers E e (n_id (b_source b)) (tock W)))"
  defines "peer_sv \<equiv> \<lambda>V. set (fst (get_peer_summary_vector E e (n_address (p_node p)) (n_port (p_node p)) V))"
    and "written \<equiv> set (drop (length (frames W)) (frames W'))"
  shows "((\<forall>V. tick W \<le> tick V \<longrightarrow> tick V \<le> tick W' \<longrightarrow> b_id b \<notin> peer_sv V) \<longrightarrow> (peer_socket p, b) \<in> written) \<and>
    ((\<forall>V. tick W \<le> tick V \<longrightarrow> tick V \<le> tick W' \<longrightarrow> b_id b \<in> peer_sv V) \<longrightarrow>
      (\<forall>x. b_id x = b_id b \<longrightarrow> (peer_socket p, x) \<notin> written))"
proof -
  obtain ps W1 where c: "connected_peers E e (n_id (b_source b)) (tock W) = (ps, W1)" by fastforce
  from assms(4-6,11) c have r: "route_onward E e b ps W1 = Some (e', b', W')"
    by (simp add: route_bundle_def route_data_def is_expired_eq)
  note q = after_query [OF assms(1) c]
  have w: "written = new_frames W1 W'" by (simp add: written_def new_frames_def q(5))
  have sv: "b_id b \<in> peer_sv V \<longleftrightarrow> named_by E e p (b_id b) V" for V by (simp add: peer_sv_def named_by_def)
  have t: "V \<in> between W1 W' \<Longrightarrow> tick W \<le> tick V \<and> tick V \<le> tick W'" for V using q(4) by (auto simp: between_def)
  have "(peer_socket p, b) \<in> written" if "\<forall>V. tick W \<le> tick V \<longrightarrow> tick V \<le> tick W' \<longrightarrow> b_id b \<notin> peer_sv V"
    unfolding w using that t assms(7-10,12) q(2,3) c sv by (intro route_onward_reaches [OF q(1) assms(2,3) _ _ _ _ r]) auto
  moreover have "(peer_socket p, x) \<notin> written"
    if all: "\<forall>V. tick W \<le> tick V \<longrightarrow> tick V \<le> tick W' \<longrightarrow> b_id b \<in> peer_sv V" and i: "b_id x = b_id b" for x
  proof
    assume "(peer_socket p, x) \<in> written"
    then obtain p' V where "peer_socket p = peer_socket p'" "V \<in> between W1 W'" "\<not> named_by E e p' (b_id b) V"
      using route_onward_named [OF q(1) r, of "peer_socket p" x] w i by auto
    then show False using all t sv by (simp add: named_by_def get_peer_summary_vector_def)
  qed
  ultimately show ?thesis by blast
qed

theorem every_peer_is_served_witness:
  "\<exists>e' b' W'. route_bundle meeting_env carrier sample_bundle sample_world = Some (e', b', W') \<and>
     (peer_socket met_peer, sample_bundle) \<in> set (frames W')"
proof -
  obtain e' b' W' where r: "route_bundle meeting_env carrier sample_bundle sample_world = Some (e', b', W')"
    using meeting_route by blast
  have p: "met_peer \<in> set (fst (connected_peers meeting_env carrier (n_id (b_source sample_bundle)) (tock sample_world)))"
    using meeting_peers by (metis fst_conv list.set_intros(1))
  have "(peer_socket met_peer, sample_bundle) \<in> set (drop (length (frames sample_world)) (frames W'))"
    by (rule every_peer_is_served [OF meeting_ok meeting_env_laws(2,3) meeting_live(1-4) _ _ _ r p,
          THEN conjunct1, rule_format]) (simp_all add: carrier_store has_id_def has_ack_def meeting_sv)
  with r show ?thesis by (auto dest: in_set_dropD)
qed

section \<open>The periodic work\<close>

text \<open>
  C28. A retry round changes nothing in the store but statuses: exactly the bundles that a peer
  has answered for in this round become \<open>InTransit\<close>, but for data bundles that are
  acknowledged. What is answered was written as a whole frame, and what is written was stored,
  pending or in transit. On a working network every such bundle is written to every other peer
  the registry reports, unless that peer names it; and if all calls of \<open>send_bundle\<close>
  succeed, all that was written counts as answered.
\<close>

theorem retry_marks_what_it_sent:
  assumes "manager_ok E (bundle_manager e, W)" and "io_ok E"
    and "\<And>is. net_step {} W (snd (query is W))"
    and "retry_unsynced_bundles query E e W = Some (e', W')"
  defines "v \<equiv> bm_view E (bundle_manager e, W)"
    and "written \<equiv> set (drop (length (frames W)) (frames W'))"
    and "taken \<equiv> set (drop (length (answered W)) (answered W'))"
  shows "bm_view E (bundle_manager e', W') =
      map (\<lambda>b. if b_id b \<in> b_id ` snd ` taken \<and> \<not> (is_Data (b_kind b) \<and> has_ack v (b_id b))
               then b\<lparr>b_status := InTransit\<rparr> else b) v \<and>
    taken \<subseteq> written \<and>
    snd ` written \<subseteq> {x \<in> set v. b_status x = Pending \<or> b_status x = InTransit} \<and>
    ((\<forall>b a V. fst (send_bundle E (eng_node_id e) b a V)) \<longrightarrow> written = taken) \<and>
    (net_ok E \<longrightarrow> (\<forall>p x. p \<in> set (fst (query (eng_peers e) W)) \<longrightarrow> n_id (p_node p) \<noteq> eng_node_id e \<longrightarrow> x \<in> set v \<longrightarrow>
      (b_status x = Pending \<or> b_status x = InTransit) \<longrightarrow>
      (\<forall>V. tick W \<le> tick V \<longrightarrow> tick V \<le> tick W' \<longrightarrow>
        b_id x \<notin> set (fst (get_peer_summary_vector E e (n_address (p_node p)) (n_port (p_node p)) V))) \<longrightarrow>
      (peer_socket p, x) \<in> written))"
proof -
  note r = retry_exact [where query = query, OF assms(1-4), folded v_def,
      unfolded in_transit_def new_frames_def new_answers_def always_answered_def named_by_def between_def retryable_def,
      folded written_def taken_def]
  show ?thesis using r(1-4) r(5) by blast
qed

text \<open>The node of the meeting, with a peer that answers.\<close>

definition answering_meeting :: "string env" where
  "answering_meeting = sample_env\<lparr>tcp_incoming := (\<lambda>_ _. ack_bytes)\<rparr>"

lemma answering_meeting_laws: "serde_laws answering_meeting" "io_ok answering_meeting" "net_ok answering_meeting"
  using sample_serde_laws sample_io_ok sample_net_ok
  by (simp_all add: answering_meeting_def serde_laws_def io_ok_def net_ok_def)

lemma answering_meeting_send: "fst (send_bundle answering_meeting i b a V)"
proof -
  have "tcp_read answering_meeting n" "4 \<le> length (tcp_incoming answering_meeting n s)" for n s
    by (simp_all add: answering_meeting_def sample_env_def ack_bytes_def)
  from send_succeeds [OF answering_meeting_laws(3) this, of i b a V] show ?thesis by auto
qed

lemma answering_meeting_sv: "fst (get_peer_summary_vector answering_meeting e a p V) = []"
proof -
  have n: "tcp_write answering_meeting n = None" "tcp_incoming answering_meeting n s = ack_bytes" for n s
    by (simp_all add: answering_meeting_def sample_env_def)
  have "from_be_bytes (take 4 ack_bytes) = 0x61636b0a" by code_simp
  then show ?thesis
    by (simp add: get_peer_summary_vector_def request_peer_sv_def net_ok_connect [OF answering_meeting_laws(3)]
        stream_write_all_def stream_read_exact_def Let_def n ack_bytes_def split: option.splits)
qed

theorem retry_marks_what_it_sent_witness:
  "\<exists>e' W'. retry_unsynced_bundles (\<lambda>is W. ([met_peer], W)) answering_meeting carrier
       (world_holding answering_meeting [sample_bundle]) = Some (e', W') \<and>
     bm_view answering_meeting (bundle_manager e', W') = [sample_bundle\<lparr>b_status := InTransit\<rparr>]"
proof -
  let ?E = answering_meeting
  let ?W = "world_holding ?E [sample_bundle]" and ?q = "\<lambda>(is :: uuid list) (W :: world). ([met_peer], W)"
  note laws = answering_meeting_laws
  have v: "bm_view ?E (bundle_manager carrier, ?W) = [sample_bundle]"
    using world_holding_view [OF laws(1), of "[sample_bundle]"] by (simp add: carrier_def)
  have ok: "manager_ok ?E (bundle_manager carrier, ?W)"
    using world_holding_ok [OF laws(1), of "[sample_bundle]"] by (simp add: carrier_def)
  obtain e' W' where r: "retry_unsynced_bundles ?q ?E carrier ?W = Some (e', W')"
    using retry_total [OF ok, of ?q] by (metis not_None_eq surj_pair net_step_refl snd_conv)
  note m = retry_marks_what_it_sent [OF ok laws(2) _ r, unfolded v]
  let ?taken = "set (drop (length (answered ?W)) (answered W'))" and ?written = "set (drop (length (frames ?W)) (frames W'))"
  have p: "n_id (p_node met_peer) \<noteq> eng_node_id carrier" by (simp add: met_peer_def carrier_def sample_node_def)
  have "(peer_socket met_peer, sample_bundle) \<in> ?written"
    using m laws(3) p by (simp add: answering_meeting_sv sample_bundle_def)
  moreover have "?written = ?taken" using m answering_meeting_send by simp
  ultimately have "b_id sample_bundle \<in> b_id ` snd ` ?taken" by force
  moreover have "\<not> has_ack [sample_bundle] i" for i by (simp add: has_ack_def sample_bundle_def)
  ultimately have "bm_view ?E (bundle_manager e', W') = [sample_bundle\<lparr>b_status := InTransit\<rparr>]" using m by simp
  with r show ?thesis by blast
qed

text \<open>
  C29. A retry round returns in every environment, keeps the store well formed, stores nothing
  new and writes frames only of bundles of the store, with some status.
\<close>

theorem retry_round_is_safe:
  assumes "manager_ok E (bundle_manager e, W)" and "\<And>is. net_step {} W (snd (query is W))"
  shows "\<exists>e' W'. retry_unsynced_bundles query E e W = Some (e', W') \<and> manager_ok E (bundle_manager e', W') \<and>
    set (bm_view E (bundle_manager e', W')) \<union> snd ` set (drop (length (frames W)) (frames W')) \<subseteq>
      {x\<lparr>b_status := st\<rparr> | x st. x \<in> set (bm_view E (bundle_manager e, W))}"
proof -
  let ?D = "{x\<lparr>b_status := st\<rparr> | x st. x \<in> set (bm_view E (eng_state e W))}"
  obtain e' W' where r: "retry_unsynced_bundles query E e W = Some (e', W')"
    using retry_total [where query = query, OF assms] by (metis not_None_eq surj_pair)
  have "x \<in> ?D" if "x \<in> set (bm_view E (eng_state e W))" for x
    using that by (intro CollectI exI [of _ x] exI [of _ "b_status x"]) simp
  then have c: "confined E ?D (eng_state e W)" using assms(1) by (auto simp: confined_def)
  have "status_closed ?D" unfolding status_closed_def by fastforce
  from retry_stays(1) [where query = query, OF c this assms(2) r] have s: "stays E ?D (eng_state e W) (eng_state e' W')" .
  then obtain fs where fs: "frames W' = frames W @ fs" "snd ` set fs \<subseteq> ?D"
    by (auto simp: stays_def node_step_def)
  from stays_confined [OF s] have "manager_ok E (eng_state e' W')" "set (bm_view E (eng_state e' W')) \<subseteq> ?D"
    by (simp_all add: confined_def)
  with r fs show ?thesis by (intro exI [of _ e'] exI [of _ W']) simp
qed

theorem retry_round_is_safe_witness:
  "\<exists>e' W'. retry_unsynced_bundles (\<lambda>is W. ([met_peer], W)) meeting_env carrier (world_holding meeting_env [sample_bundle]) =
     Some (e', W') \<and> manager_ok meeting_env (bundle_manager e', W')"
proof -
  have ok: "manager_ok meeting_env (bundle_manager carrier, world_holding meeting_env [sample_bundle])"
    using world_holding_ok [OF meeting_env_laws(1), of "[sample_bundle]"] by (simp add: carrier_def)
  from retry_round_is_safe [OF ok, of "\<lambda>is W. ([met_peer], W)"] show ?thesis by auto
qed

text \<open>
  C30. \<open>drop_expired_bundles\<close> returns in every environment and removes only; on a working
  disk it keeps, in order, exactly the bundles that have not expired at consecutive readings
  of the clock.
\<close>

theorem drop_expired_correct:
  assumes "manager_ok E m"
  shows "\<exists>m'. drop_expired_bundles E m = Some m' \<and> manager_ok E m' \<and> set (bm_view E m') \<subseteq> set (bm_view E m) \<and>
    (io_ok E \<longrightarrow> (\<exists>t. bm_view E m' = unexpired E t (bm_view E m)))"
proof -
  from drop_expired_total [OF assms] obtain m' where
    m: "drop_expired_bundles E m = Some m'" "manager_ok E m'" "set (bm_view E m') \<subseteq> set (bm_view E m)" by blast
  with drop_expired_exact [OF assms _ m(1)] show ?thesis by blast
qed

theorem drop_expired_correct_witness:
  "\<exists>m'. drop_expired_bundles sample_env (sample_manager, world_holding sample_env [old_bundle]) = Some m' \<and>
     bm_view sample_env m' = []"
proof -
  have x: "unexpired sample_env t [old_bundle] = []" for t
    by (simp add: expired_at_def sint_u64 old_bundle_def) (simp add: sample_env_def sample_bundle_def)
  have ok: "manager_ok sample_env (sample_manager, world_holding sample_env [old_bundle])" using holding_one by blast
  from drop_expired_correct [OF ok] show ?thesis
    by (auto simp: world_holding_view [OF sample_serde_laws] sample_io_ok x simp del: unexpired.simps)
qed

end
