(* ===== verification/Cli.thy ===== *)
theory Cli
  imports Peer_Loop
begin

text \<open>
  \<open>cli/cli.rs\<close>, \<open>cli/handler.rs\<close> and \<open>main.rs\<close>: the commands, the process-wide
  state they act on, and the interactive loop.

  \<open>app\<close> is the state of the process: the nodes, the three static tables of
  \<open>handler.rs\<close>, and the threads \<open>start\<close> has spawned, each with the clone of the
  engine it owns. A command returns the lines it prints to standard output, and
  \<open>None\<close> if it ends the process (\<open>exit(1)\<close>, or a panic). \<open>clap\<close> is a parameter.
  The \<open>Debug\<close> command exists only under a feature flag and is left out.
\<close>

section \<open>\<open>cli/cli.rs\<close>\<close>

datatype PeerCommands =
    ListPeers
  | GetConnectedPeersCmd "string list"
  | AddPeer string
  | RemovePeer string

datatype NodeCommands =
    AllNodes
  | Start string string
  | Stop string
  | Status string
  | PeersCmd string PeerCommands
  | Send string string string u64 \<comment> \<open>from, to, message, ttl\<close>

section \<open>The state of the process\<close>

record app =
  app_nodes :: "AppNode list"
  registry_streams :: "uuid \<Rightarrow> stream option"
  listening_ports :: "u16 set"
  retrying_nodes :: "uuid set"
  listeners :: "(u16 \<times> RoutingEngine) list"
  retriers :: "(uuid \<times> RoutingEngine) list"

definition sync_node_engine_peers :: "AppNode \<Rightarrow> AppNode" where
  "sync_node_engine_peers n =
     (case routing_engine n of
        Some e \<Rightarrow> n\<lparr>routing_engine := Some (e\<lparr>eng_peers := n_peers n\<rparr>)\<rparr>
      | None \<Rightarrow> n)"

text \<open>\<open>find_node\<close> and \<open>find_node_mut\<close>: \<open>None\<close> is \<open>exit(1)\<close>.\<close>

definition find_node :: "AppNode list \<Rightarrow> string \<Rightarrow> AppNode option" where
  "find_node nodes name = find (\<lambda>n. n_name n = name) nodes"

text \<open>Writing back through the mutable reference \<open>find_node_mut\<close> returned.\<close>

definition put_node_at :: "string \<Rightarrow> AppNode \<Rightarrow> AppNode list \<Rightarrow> AppNode list" where
  "put_node_at name n nodes = update_first (\<lambda>x. n_name x = name) (\<lambda>_. n) nodes"

text \<open>The engine of a node, created on first use.\<close>

definition ensure_engine ::
    "'v env \<Rightarrow> AppNode \<Rightarrow> world \<Rightarrow> (RoutingEngine \<times> world) option" where
  "ensure_engine E n W =
     (case routing_engine n of
        Some e \<Rightarrow> Some (e, W)
      | None \<Rightarrow> engine_new E (n_id n) (n_peers n) (n_name n) W)"

section \<open>The commands\<close>

definition node_line :: "'v env \<Rightarrow> AppNode \<Rightarrow> string" where
  "node_line E n =
     ''  - '' @ n_name n @ '' | '' @ uuid_to_string E (n_id n) @ '' | '' @
     n_address n @ '':'' @ show_nat (unat (n_port n)) @ '' | peers: '' @ show_nat (length (n_peers n))"

definition cmd_all :: "'v env \<Rightarrow> AppNode list \<Rightarrow> string list" where
  "cmd_all E nodes =
     (if nodes = [] then [''No nodes found.'']
      else (''Nodes in demo ('' @ show_nat (length nodes) @ ''):'') # map (node_line E) nodes)"

definition cmd_start ::
    "'v env \<Rightarrow> string \<Rightarrow> string \<Rightarrow> app \<Rightarrow> world \<Rightarrow> (string list \<times> app \<times> world) option" where
  "cmd_start E name server A W =
     do {
       n \<leftarrow> find_node (app_nodes A) name;
       let (stream, W) = connect_to_server E (Node.truncate n) server W;
       case stream of
         None \<Rightarrow> Some ([], A, W)
       | Some S \<Rightarrow>
           do {
             (e, W) \<leftarrow> ensure_engine E n W;
             let e = e\<lparr>eng_peers := n_peers n, registry_address := server\<rparr>;
             let n = n\<lparr>routing_engine := Some e\<rparr>;
             let A = A\<lparr>registry_streams := (registry_streams A)(n_id n \<mapsto> S),
                       app_nodes := put_node_at name n (app_nodes A)\<rparr>;
             let A = (if n_port n \<in> listening_ports A then A
                      else A\<lparr>listening_ports := insert (n_port n) (listening_ports A),
                             listeners := listeners A @ [(n_port n, e)]\<rparr>);
             let A = (if n_id n \<in> retrying_nodes A then A
                      else A\<lparr>retrying_nodes := insert (n_id n) (retrying_nodes A),
                             retriers := retriers A @ [(n_id n, e)]\<rparr>);
             Some ([''Node '' @ n_name n @ '' registered with server '' @ server], A, W)
           }
     }"

definition cmd_stop :: "string \<Rightarrow> app \<Rightarrow> (string list \<times> app) option" where
  "cmd_stop name A =
     do {
       n \<leftarrow> find_node (app_nodes A) name;
       let first = ''Stopping node '' @ n_name n @ ''...'';
       if registry_streams A (n_id n) \<noteq> None
       then Some ([first, ''Node '' @ n_name n @ '' disconnected from server.''],
                  A\<lparr>registry_streams := (registry_streams A)(n_id n := None)\<rparr>)
       else Some ([first], A)
     }"

definition cmd_status ::
    "'v env \<Rightarrow> string \<Rightarrow> app \<Rightarrow> world \<Rightarrow> (string list \<times> app \<times> world) option" where
  "cmd_status E name A W =
     do {
       n \<leftarrow> find_node (app_nodes A) name;
       let (stored, n, W) =
         (case routing_engine n of
            None \<Rightarrow> (0, n, W)
          | Some e \<Rightarrow>
              (let (bs, (M, W)) = bm_all E (bundle_manager e, W)
               in (length bs, n\<lparr>routing_engine := Some (e\<lparr>bundle_manager := M\<rparr>)\<rparr>, W)));
       Some
         ([''ID : '' @ uuid_to_string E (n_id n), ''Name : '' @ n_name n,
           ''Address : '' @ n_address n @ '':'' @ show_nat (unat (n_port n)),
           ''Peers : '' @ show_nat (length (n_peers n)), ''Bundles : '' @ show_nat stored],
          A\<lparr>app_nodes := put_node_at name n (app_nodes A)\<rparr>, W)
     }"

definition cmd_send ::
    "'v env \<Rightarrow> string \<Rightarrow> string \<Rightarrow> string \<Rightarrow> u64 \<Rightarrow> app \<Rightarrow> world \<Rightarrow> (string list \<times> app \<times> world) option" where
  "cmd_send E from to message ttl A W =
     do {
       destination \<leftarrow> find_node (app_nodes A) to;
       sender \<leftarrow> find_node (app_nodes A) from;
       (e, W) \<leftarrow> ensure_engine E sender W;
       let e = e\<lparr>eng_peers := n_peers sender\<rparr>;
       let (b, W) = bundle_new E (Node.truncate sender) (Node.truncate destination) (Data message) ttl W;
       (e, _, W) \<leftarrow> route_bundle E e b W;
       Some ([], A\<lparr>app_nodes := put_node_at from (sender\<lparr>routing_engine := Some e\<rparr>) (app_nodes A)\<rparr>, W)
     }"

text \<open>\<open>collect()\<close> into a \<open>HashMap\<close>: the last node of a name wins.\<close>

definition known_nodes :: "AppNode list \<Rightarrow> string \<Rightarrow> uuid option" where
  "known_nodes nodes = map_of (rev (map (\<lambda>n. (n_name n, n_id n)) nodes))"

fun parse_uuids :: "'v env \<Rightarrow> string list \<Rightarrow> uuid list option" where
  "parse_uuids E [] = Some []"
| "parse_uuids E (s # ss) =
     do { u \<leftarrow> uuid_parse_str E s; us \<leftarrow> parse_uuids E ss; Some (u # us) }"

definition peer_line :: "'v env \<Rightarrow> PeerRecord \<Rightarrow> string" where
  "peer_line E p =
     '' - '' @ n_name (p_node p) @ '' | '' @ uuid_to_string E (n_id (p_node p)) @ '' | '' @
     n_address (p_node p) @ '':'' @ show_nat (unat (n_port (p_node p)))"

definition handle_peer_command ::
    "'v env \<Rightarrow> PeerCommands \<Rightarrow> AppNode \<Rightarrow> (string \<Rightarrow> uuid option) \<Rightarrow> world \<Rightarrow>
     (string list \<times> AppNode \<times> world) option" where
  "handle_peer_command E command n known W =
     (case command of
        ListPeers \<Rightarrow>
          Some (if n_peers n = [] then [''No known peers for '' @ n_name n @ ''.'']
                else (''Peers for '' @ n_name n @ '':'') #
                  map (\<lambda>p. ''  - '' @ uuid_to_string E p) (n_peers n), n, W)
      | GetConnectedPeersCmd texts \<Rightarrow>
          do {
            uuids \<leftarrow> parse_uuids E texts;
            let (peers, W) =
              (case routing_engine n of
                 Some e \<Rightarrow> get_connected_peers_from_server E (registry_address e) uuids W
               | None \<Rightarrow> ([], W));
            Some ((''Connected peers found: '' @ show_nat (length peers)) # map (peer_line E) peers, n, W)
          }
      | AddPeer name \<Rightarrow>
          (case known name of
             None \<Rightarrow> Some ([], n, W)
           | Some i \<Rightarrow>
               if i \<in> set (n_peers n)
               then Some ([n_name n @ '' already knows peer '' @ uuid_to_string E i @ ''.''], n, W)
               else Some ([''Peer '' @ [CHR 0x27] @ name @ [CHR 0x27] @ '' ('' @ uuid_to_string E i @
                       '') added to '' @ n_name n @ ''.''],
                     sync_node_engine_peers (n\<lparr>n_peers := n_peers n @ [i]\<rparr>), W))
      | RemovePeer name \<Rightarrow>
          (case known name of
             None \<Rightarrow> Some ([], n, W)
           | Some i \<Rightarrow>
               let n' = n\<lparr>n_peers := filter (\<lambda>p. p \<noteq> i) (n_peers n)\<rparr>
               in if length (n_peers n') < length (n_peers n)
                  then Some ([''Peer '' @ [CHR 0x27] @ name @ [CHR 0x27] @ '' ('' @ uuid_to_string E i @
                          '') removed from '' @ n_name n @ ''.''],
                        sync_node_engine_peers n', W)
                  else Some ([''Peer '' @ [CHR 0x27] @ name @ [CHR 0x27] @ '' ('' @ uuid_to_string E i @
                          '') was not in '' @ n_name n @ '' peer list.''], n', W)))"

definition cmd_peers ::
    "'v env \<Rightarrow> string \<Rightarrow> PeerCommands \<Rightarrow> app \<Rightarrow> world \<Rightarrow> (string list \<times> app \<times> world) option" where
  "cmd_peers E name command A W =
     do {
       n \<leftarrow> find_node (app_nodes A) name;
       (out, n, W) \<leftarrow> handle_peer_command E command n (known_nodes (app_nodes A)) W;
       Some (out, A\<lparr>app_nodes := put_node_at name n (app_nodes A)\<rparr>, W)
     }"

fun handle_command ::
    "'v env \<Rightarrow> NodeCommands \<Rightarrow> app \<Rightarrow> world \<Rightarrow> (string list \<times> app \<times> world) option" where
  "handle_command E AllNodes A W = Some (cmd_all E (app_nodes A), A, W)"
| "handle_command E (Start name server) A W = cmd_start E name server A W"
| "handle_command E (Stop name) A W = do { (out, A) \<leftarrow> cmd_stop name A; Some (out, A, W) }"
| "handle_command E (Status name) A W = cmd_status E name A W"
| "handle_command E (Send from to message ttl) A W = cmd_send E from to message ttl A W"
| "handle_command E (PeersCmd name command) A W = cmd_peers E name command A W"

section \<open>The threads of a started node\<close>

text \<open>
  The events of a running process, each a whole operation: a command; a connection accepted
  by a listener thread, handled on a clone of the engine the listener owns; a round of a
  retry thread, which owns its engine and runs only while the node holds a registry stream.
  \<open>query\<close> is the registry call of the retry loop (see \<open>retry_unsynced_bundles\<close>).
\<close>

inductive app_step ::
    "(uuid list \<Rightarrow> world \<Rightarrow> PeerRecord list \<times> world) \<Rightarrow> 'v env \<Rightarrow> app \<times> world \<Rightarrow> app \<times> world \<Rightarrow> bool"
    for query :: "uuid list \<Rightarrow> world \<Rightarrow> PeerRecord list \<times> world" and E :: "'v env" where
  command: "handle_command E c A W = Some (out, A', W') \<Longrightarrow> app_step query E (A, W) (A', W')"
| connection: "(port, e) \<in> set (listeners A) \<Longrightarrow> handle_peer_to_peer E e S W = Some (e', S', W') \<Longrightarrow>
    app_step query E (A, W) (A, W')"
| retry: "k < length (retriers A) \<Longrightarrow> retriers A ! k = (i, e) \<Longrightarrow> registry_streams A i \<noteq> None \<Longrightarrow>
    retry_unsynced_bundles query E e W = Some (e', W') \<Longrightarrow>
    app_step query E (A, W) (A\<lparr>retriers := (retriers A)[k := (i, e')]\<rparr>, W')"

inductive app_run ::
    "(uuid list \<Rightarrow> world \<Rightarrow> PeerRecord list \<times> world) \<Rightarrow> 'v env \<Rightarrow> app \<times> world \<Rightarrow> app \<times> world \<Rightarrow> bool"
    for query :: "uuid list \<Rightarrow> world \<Rightarrow> PeerRecord list \<times> world" and E :: "'v env" where
  start: "app_run query E s s"
| next_step: "app_run query E s s' \<Longrightarrow> app_step query E s' s'' \<Longrightarrow> app_run query E s s''"

section \<open>\<open>main.rs\<close>\<close>

definition initial_nodes :: "'v env \<Rightarrow> world \<Rightarrow> (AppNode list \<times> world) option" where
  "initial_nodes E W =
     do {
       _ \<leftarrow> node_id E ''alice'';
       bob_id \<leftarrow> node_id E ''bob'';
       carol_id \<leftarrow> node_id E ''carol'';
       syrine_id \<leftarrow> node_id E ''syrine'';
       (alice, W) \<leftarrow> node_new E ''alice'' ''127.0.0.1'' 9001 [bob_id] W;
       (bob, W) \<leftarrow> node_new E ''bob'' ''127.0.0.1'' 9002 [carol_id] W;
       (carol, W) \<leftarrow> node_new E ''carol'' ''127.0.0.1'' 9003 [syrine_id] W;
       (syrine, W) \<leftarrow> node_new E ''syrine'' ''127.0.0.1'' 9004 [] W;
       Some ([alice, bob, carol, syrine], W)
     }"

definition initial_app :: "AppNode list \<Rightarrow> app" where
  "initial_app nodes = \<lparr>app_nodes = nodes, registry_streams = (\<lambda>_. None), listening_ports = {},
     retrying_nodes = {}, listeners = [], retriers = []\<rparr>"

text \<open>
  \<open>trim\<close>, \<open>split_whitespace\<close> and \<open>eq_ignore_ascii_case\<close> on ASCII text.
\<close>

definition is_space :: "char \<Rightarrow> bool" where
  "is_space c \<longleftrightarrow> (let n = (of_char c :: nat) in 9 \<le> n \<and> n \<le> 13 \<or> n = 32)"

definition trim :: "string \<Rightarrow> string" where
  "trim s = rev (dropWhile is_space (rev (dropWhile is_space s)))"

fun split_ws :: "string \<Rightarrow> string \<Rightarrow> string list" where
  "split_ws word [] = (if word = [] then [] else [word])"
| "split_ws word (c # cs) =
     (if is_space c then (if word = [] then split_ws [] cs else word # split_ws [] cs)
      else split_ws (word @ [c]) cs)"

definition ascii_lower :: "char \<Rightarrow> char" where
  "ascii_lower c =
     (let n = (of_char c :: nat) in if 65 \<le> n \<and> n \<le> 90 then char_of (n + 32) else c)"

definition eq_ignore_case :: "string \<Rightarrow> string \<Rightarrow> bool" where
  "eq_ignore_case s t \<longleftrightarrow> map ascii_lower s = map ascii_lower t"

definition help_lines :: "string list" where
  "help_lines =
     [''Commands:'',
      ''  all'',
      ''  status <name>'',
      ''  peers <name> list-peers'',
      ''  peers <name> add <peer-name>'',
      ''  peers <name> remove <peer-name>'',
      ''  send --from <name> --to <name> --message <msg> --ttl <seconds>'',
      ''  start <name> --server <ip:port>'',
      ''  stop <name>'']"

text \<open>
  The loop of the interactive mode over the lines read so far; \<open>None\<close> is a line that could
  not be read, an empty line is also what the end of the input gives. The first component
  tells whether the loop was left. \<open>clap\<close> is \<open>Cli::try_parse_from\<close>.
\<close>

fun interactive ::
    "'v env \<Rightarrow> (string list \<Rightarrow> NodeCommands option) \<Rightarrow> string option list \<Rightarrow> app \<Rightarrow> world \<Rightarrow>
     (bool \<times> string list \<times> app \<times> world) option" where
  "interactive E clap [] A W = Some (False, [], A, W)"
| "interactive E clap (None # lines) A W = interactive E clap lines A W"
| "interactive E clap (Some line # lines) A W =
     (let input = trim line
      in if input = [] then interactive E clap lines A W
         else if eq_ignore_case input ''exit'' \<or> eq_ignore_case input ''quit''
         then Some (True, [''Bye.''], A, W)
         else if eq_ignore_case input ''help''
         then do { (q, out, A, W) \<leftarrow> interactive E clap lines A W; Some (q, help_lines @ out, A, W) }
         else
           (case clap (''WhatSpace'' # split_ws [] input) of
              Some c \<Rightarrow>
                do {
                  (out1, A, W) \<leftarrow> handle_command E c A W;
                  (q, out, A, W) \<leftarrow> interactive E clap lines A W;
                  Some (q, out1 @ out, A, W)
                }
            | None \<Rightarrow> interactive E clap lines A W))"

text \<open>How a run of \<open>main\<close> ends.\<close>

datatype main_end =
    Serving
  | Finished "string list" app world
  | KeptAlive "string list" app world
  | AtPrompt "string list" app world

definition main_run ::
    "'v env \<Rightarrow> (string list \<Rightarrow> NodeCommands option) \<Rightarrow> string list \<Rightarrow> string option list \<Rightarrow> world \<Rightarrow>
     main_end option" where
  "main_run E clap args lines W =
     do {
       (nodes, W) \<leftarrow> initial_nodes E W;
       let A = initial_app nodes;
       if length args > 1 \<and> (args ! 1 = ''serve'' \<or> args ! 1 = ''server'') then Some Serving
       else if length args > 1 then
         do {
           command \<leftarrow> clap args;
           (out, A, W) \<leftarrow> handle_command E command A W;
           Some (case command of Start _ _ \<Rightarrow> KeptAlive out A W | _ \<Rightarrow> Finished out A W)
         }
       else
         do {
           (left, out, A, W) \<leftarrow> interactive E clap lines A W;
           Some (if left then Finished out A W else AtPrompt out A W)
         }
     }"

end
