(* ===== verification/Cli_Facts.thy ===== *)
theory Cli_Facts
  imports Cli
begin

text \<open>
  The invariant of a process: every bundles file of its nodes is well formed, every engine
  it holds (of a node, a listener thread or a retry thread) works on the file of its node,
  and no command, connection or retry round changes that.
\<close>

section \<open>The files of the nodes\<close>

definition node_dir :: "'v env \<Rightarrow> string \<Rightarrow> string" where
  "node_dir E name = path_join (manifest_dir E) (''./bundles/'' @ name)"

text \<open>The files of different names are different, also the temporary ones.\<close>

definition separate :: "'v env \<Rightarrow> string set \<Rightarrow> bool" where
  "separate E names \<longleftrightarrow> (\<forall>a \<in> names. \<forall>b \<in> names. a \<noteq> b \<longrightarrow>
     bundles_file (node_dir E a) \<noteq> bundles_file (node_dir E b) \<and>
     bundles_file (node_dir E a) \<noteq> tmp_file (node_dir E b))"

lemma node_dir_form: "\<exists>X. \<forall>name. node_dir E name = X @ ''./bundles/'' @ name"
proof (cases "manifest_dir E = [] \<or> last (manifest_dir E) = CHR ''/''")
  case True
  then show ?thesis
    by (intro exI [of _ "manifest_dir E"]) (simp add: node_dir_def path_join_def is_relative_def)
next
  case False
  then show ?thesis
    by (intro exI [of _ "manifest_dir E @ ''/''"]) (simp add: node_dir_def path_join_def is_relative_def)
qed

text \<open>Names that are no paths of their own are kept apart.\<close>

lemma separate_plain:
  assumes "\<And>a. a \<in> names \<Longrightarrow> a \<noteq> [] \<and> last a \<noteq> CHR ''/''"
  shows "separate E names"
proof -
  obtain X where X: "\<And>name. node_dir E name = X @ ''./bundles/'' @ name" using node_dir_form [of E] by blast
  have bf: "bundles_file (node_dir E a) = X @ ''./bundles/'' @ a @ ''/bundles.json''"
    and tf: "tmp_file (node_dir E a) = X @ ''./bundles/'' @ a @ ''/bundles.json.tmp''" if "a \<in> names" for a
    using assms [OF that] by (simp_all add: bundles_file_def tmp_file_def path_join_def is_relative_def X)
  have "a @ ''/bundles.json'' \<noteq> b @ ''/bundles.json.tmp''" for a b :: string
  proof
    assume "a @ ''/bundles.json'' = b @ ''/bundles.json.tmp''"
    then have "last (a @ ''/bundles.json'') = last (b @ ''/bundles.json.tmp'')" by (rule arg_cong)
    then show False by simp
  qed
  then show ?thesis by (simp add: separate_def bf tf)
qed

lemma other_dir_kept:
  assumes "separate E names" and "a \<in> names" and "b \<in> names" and "a \<noteq> b"
    and "node_step B m m'" and "storage_dir (bm_storage (fst m)) = node_dir E b"
  shows "disk_bundles E (node_dir E a) (snd m') = disk_bundles E (node_dir E a) (snd m)"
  using assms unfolding separate_def node_step_def disk_bundles_def by metis

section \<open>The invariant\<close>

definition engine_of :: "'v env \<Rightarrow> AppNode \<Rightarrow> RoutingEngine \<Rightarrow> bool" where
  "engine_of E n e \<longleftrightarrow> eng_node_id e = n_id n \<and>
     storage_dir (bm_storage (bundle_manager e)) = node_dir E (n_name n) \<and>
     capacity (bm_storage (bundle_manager e)) = 100"

definition files_ok :: "'v env \<Rightarrow> string set \<Rightarrow> world \<Rightarrow> bool" where
  "files_ok E names W \<longleftrightarrow> serde_laws E \<and> separate E names \<and>
     (\<forall>name \<in> names. well_formed (disk_bundles E (node_dir E name) W) 100)"

definition app_ok :: "'v env \<Rightarrow> app \<times> world \<Rightarrow> bool" where
  "app_ok E s \<longleftrightarrow> (case s of (A, W) \<Rightarrow>
     files_ok E (n_name ` set (app_nodes A)) W \<and>
     (\<forall>n \<in> set (app_nodes A). \<forall>e. routing_engine n = Some e \<longrightarrow> engine_of E n e) \<and>
     (\<forall>e \<in> snd ` set (listeners A) \<union> snd ` set (retriers A). \<exists>n \<in> set (app_nodes A). engine_of E n e))"

lemma engine_manager_ok:
  assumes "files_ok E names W" and "n_name n \<in> names" and "engine_of E n e"
  shows "manager_ok E (eng_state e W)"
  using assms by (auto simp: files_ok_def engine_of_def manager_ok_def bm_view_def bm_store_def
      store_view_def bm_cap_def)

text \<open>A step of one engine keeps all files well formed.\<close>

lemma engine_step_files:
  assumes "files_ok E names W" and "n_name n \<in> names" and "engine_of E n e"
    and "stays E D (eng_state e W) (eng_state e' W')" and "eng_node_id e' = eng_node_id e"
  shows "files_ok E names W'" and "engine_of E n e'"
proof -
  from assms(4) have ns: "node_step D (eng_state e W) (eng_state e' W')"
    and ok: "manager_ok E (eng_state e' W')" by (simp_all add: stays_def confined_def)
  show e': "engine_of E n e'" using ns assms(3,5)
    by (simp add: engine_of_def node_step_def bm_cap_def)
  have "well_formed (disk_bundles E (node_dir E a) W') 100" if a: "a \<in> names" for a
  proof (cases "a = n_name n")
    case True
    then show ?thesis using ok e'
      by (simp add: manager_ok_def engine_of_def bm_view_def bm_store_def store_view_def bm_cap_def)
  next
    case False
    have "separate E names" using assms(1) by (simp add: files_ok_def)
    from other_dir_kept [OF this a assms(2) False ns] assms(1,3) a show ?thesis
      by (simp add: engine_of_def files_ok_def)
  qed
  then show "files_ok E names W'" using assms(1) by (simp add: files_ok_def)
qed

lemma files_ok_net: "net_step B W W' \<Longrightarrow> files_ok E names W' = files_ok E names W"
  by (simp add: files_ok_def disk_bundles_def net_step_def)

lemma files_ok_disk: "disk W' = disk W \<Longrightarrow> files_ok E names W' = files_ok E names W"
  by (simp add: files_ok_def disk_bundles_def)

lemma engine_new_result:
  assumes "engine_new E i peers name W = Some (e, W')"
  shows "eng_node_id e = i" and "eng_peers e = peers" and "disk W' = disk W"
    and "storage_dir (bm_storage (bundle_manager e)) = node_dir E name"
    and "capacity (bm_storage (bundle_manager e)) = 100"
proof -
  from assms obtain L where s: "storage_new E (''./bundles/'' @ name) 100 W = Some (L, W')"
    and e: "e = \<lparr>eng_node_id = i, eng_peers = peers, registry_address = ''127.0.0.1:9100'',
              eng_server = server_new, bundle_manager = \<lparr>bm_node_id = i, bm_storage = L\<rparr>\<rparr>"
    by (auto simp: engine_new_def bm_new_def bind_eq_Some_conv)
  have "is_relative (''./bundles/'' @ name)" by (simp add: is_relative_def)
  with storage_new_result(1-3) [OF s] show "eng_node_id e = i" "eng_peers e = peers" "disk W' = disk W"
    "storage_dir (bm_storage (bundle_manager e)) = node_dir E name"
    "capacity (bm_storage (bundle_manager e)) = 100" by (simp_all add: e node_dir_def)
qed

lemma ensure_engine_ok:
  assumes "ensure_engine E n W = Some (e, W')" and "files_ok E names W"
    and "\<And>e. routing_engine n = Some e \<Longrightarrow> engine_of E n e"
  shows "engine_of E n e" and "files_ok E names W'"
proof -
  have "engine_of E n e \<and> disk W' = disk W"
  proof (cases "routing_engine n")
    case None
    with assms(1) have "engine_new E (n_id n) (n_peers n) (n_name n) W = Some (e, W')"
      by (simp add: ensure_engine_def)
    from engine_new_result [OF this] show ?thesis by (simp add: engine_of_def)
  next
    case (Some x)
    with assms(1,3) show ?thesis by (simp add: ensure_engine_def)
  qed
  then show "engine_of E n e" "files_ok E names W'"
    using assms(2) files_ok_disk [of W' W E names] by simp_all
qed

lemma connect_to_server_net_step: "connect_to_server E n a W = (c, W') \<Longrightarrow> net_step B W W'"
  unfolding connect_to_server_def Let_def
  by (auto split: prod.splits option.splits if_splits
      dest!: net_steps(1,2,4) [where B = B] intro: net_step_trans_same)

section \<open>Nodes written back\<close>

lemma find_nodeD: "find_node nodes name = Some n \<Longrightarrow> n \<in> set nodes \<and> n_name n = name"
  unfolding find_node_def by (rule find_SomeD)

lemma put_node_names:
  assumes "n_name n = name"
  shows "n_name ` set (put_node_at name n nodes) = n_name ` set nodes"
proof -
  have "map n_name (put_node_at name n nodes) = map n_name nodes"
    unfolding put_node_at_def by (rule map_update_first) (simp add: assms)
  then show ?thesis by (metis list.set_map)
qed

lemma put_node_set: "set (put_node_at name n nodes) \<subseteq> insert n (set nodes)"
  using set_update_first_subset [of "\<lambda>x. n_name x = name" "\<lambda>_. n" nodes] by (auto simp: put_node_at_def)

lemma find_put_node:
  assumes "find_node nodes name = Some x" and "y \<in> set nodes"
  shows "y \<in> set (put_node_at name n nodes) \<or> y = x"
  using assms unfolding find_node_def put_node_at_def by (induction nodes) (auto split: if_splits)

lemma find_put_same:
  assumes "find_node nodes name = Some x" and "n_name n = name"
  shows "find_node (put_node_at name n nodes) name = Some n"
  using assms unfolding find_node_def put_node_at_def by (induction nodes) (auto split: if_splits)

text \<open>The identity an engine is tied to survives every change to a node.\<close>

definition same_node :: "AppNode \<Rightarrow> AppNode \<Rightarrow> bool" where
  "same_node n n' \<longleftrightarrow> n_id n' = n_id n \<and> n_name n' = n_name n"

lemma engine_of_same: "same_node n n' \<Longrightarrow> engine_of E n' e = engine_of E n e"
  by (simp add: same_node_def engine_of_def)

lemma put_node_app_ok:
  assumes "app_ok E (A, W)" and "find_node (app_nodes A) name = Some n" and "same_node n n'"
    and "files_ok E (n_name ` set (app_nodes A)) W'"
    and "\<And>e. routing_engine n' = Some e \<Longrightarrow> engine_of E n' e"
    and "app_nodes A' = put_node_at name n' (app_nodes A)"
    and "set (listeners A') \<subseteq> set (listeners A) \<union> {l. engine_of E n' (snd l)}"
    and "set (retriers A') \<subseteq> set (retriers A) \<union> {l. engine_of E n' (snd l)}"
  shows "app_ok E (A', W')"
proof -
  have name: "n_name n' = name" using find_nodeD [OF assms(2)] assms(3) by (simp add: same_node_def)
  note names = put_node_names [OF name, of "app_nodes A"]
  have new: "n' \<in> set (app_nodes A')"
    using update_first_hit [of "\<lambda>x. n_name x = name" "app_nodes A" n "\<lambda>_. n'"] assms(2)
    by (simp add: assms(6) put_node_at_def find_node_def)
  have keep: "\<exists>n \<in> set (app_nodes A'). engine_of E n e" if "\<exists>n \<in> set (app_nodes A). engine_of E n e" for e
  proof -
    from that obtain x where x: "x \<in> set (app_nodes A)" "engine_of E x e" by blast
    from find_put_node [OF assms(2) x(1), of n'] show ?thesis
      using x(2) new engine_of_same [OF assms(3)] assms(6) by auto
  qed
  have "engine_of E x e" if "x \<in> set (app_nodes A')" "routing_engine x = Some e" for x e
    using that put_node_set [of name n' "app_nodes A"] assms(1,5,6) by (auto simp: app_ok_def)
  moreover have "\<exists>n \<in> set (app_nodes A'). engine_of E n e"
    if "e \<in> snd ` set (listeners A') \<union> snd ` set (retriers A')" for e
  proof -
    from that assms(7,8) consider "e \<in> snd ` set (listeners A) \<union> snd ` set (retriers A)" | "engine_of E n' e"
      by fastforce
    then show ?thesis
    proof cases
      case 1
      then show ?thesis using assms(1) keep by (simp add: app_ok_def)
    next
      case 2
      then show ?thesis using new by blast
    qed
  qed
  ultimately show ?thesis using assms(4,6) names by (simp add: app_ok_def)
qed

section \<open>Every event preserves the invariant\<close>

lemma app_okD:
  assumes "app_ok E (A, W)"
  shows "files_ok E (n_name ` set (app_nodes A)) W"
    and "n \<in> set (app_nodes A) \<Longrightarrow> routing_engine n = Some e \<Longrightarrow> engine_of E n e"
    and "e \<in> snd ` set (listeners A) \<union> snd ` set (retriers A) \<Longrightarrow> \<exists>n \<in> set (app_nodes A). engine_of E n e"
  using assms by (auto simp: app_ok_def)

text \<open>Whatever the engine of a node does is confined to its own file.\<close>

lemma confined_UNIV: "manager_ok E m \<Longrightarrow> confined E UNIV m"
  by (simp add: confined_def)

lemma closed_UNIV [simp]: "status_closed UNIV" "ack_closed i UNIV"
  by (simp_all add: status_closed_def ack_closed_def)

lemma same_config_id: "same_config e e' \<Longrightarrow> eng_node_id e' = eng_node_id e"
  by (simp add: same_config_def)

lemma cmd_start_ok:
  assumes "app_ok E (A, W)" and "cmd_start E name server A W = Some (out, A', W')"
  shows "app_ok E (A', W')"
proof -
  from assms(2) obtain n where n: "find_node (app_nodes A) name = Some n"
    by (auto simp: cmd_start_def bind_eq_Some_conv)
  obtain c W1 where c: "connect_to_server E (Node.truncate n) server W = (c, W1)" by fastforce
  have f1: "files_ok E (n_name ` set (app_nodes A)) W1"
    using files_ok_net [OF connect_to_server_net_step [OF c]] app_okD(1) [OF assms(1)] by blast
  show ?thesis
  proof (cases c)
    case None
    with assms(2) n c have "A' = A" "W' = W1" by (simp_all add: cmd_start_def)
    then show ?thesis using assms(1) f1 by (simp add: app_ok_def)
  next
    case (Some S)
    with assms(2) n c obtain e where e: "ensure_engine E n W1 = Some (e, W')"
      by (auto simp: cmd_start_def bind_eq_Some_conv Let_def)
    let ?e = "e\<lparr>eng_peers := n_peers n, registry_address := server\<rparr>"
    let ?n = "n\<lparr>routing_engine := Some ?e\<rparr>"
    have old: "engine_of E n x" if "routing_engine n = Some x" for x
      using app_okD(2) [OF assms(1) _ that] find_nodeD [OF n] by blast
    note en = ensure_engine_ok [OF e f1 old]
    have eo: "engine_of E ?n ?e" using en(1) by (simp add: engine_of_def)
    have "app_nodes A' = put_node_at name ?n (app_nodes A)"
      "set (listeners A') \<subseteq> insert (n_port n, ?e) (set (listeners A))"
      "set (retriers A') \<subseteq> insert (n_id n, ?e) (set (retriers A))"
      using assms(2) n c Some e by (auto simp: cmd_start_def Let_def split: if_splits)
    then show ?thesis
      using eo by (intro put_node_app_ok [OF assms(1) n _ en(2)]) (auto simp: same_node_def)
  qed
qed

lemma cmd_status_ok:
  assumes "app_ok E (A, W)" and "cmd_status E name A W = Some (out, A', W')"
  shows "app_ok E (A', W')"
proof -
  from assms(2) obtain n where n: "find_node (app_nodes A) name = Some n"
    by (auto simp: cmd_status_def bind_eq_Some_conv)
  have mem: "n \<in> set (app_nodes A)" using find_nodeD [OF n] by blast
  show ?thesis
  proof (cases "routing_engine n")
    case None
    with assms(2) n have "app_nodes A' = put_node_at name n (app_nodes A)" "W' = W"
      "listeners A' = listeners A" "retriers A' = retriers A"
      by (auto simp: cmd_status_def)
    then show ?thesis using app_okD(1) [OF assms(1)] None
      by (intro put_node_app_ok [OF assms(1) n]) (auto simp: same_node_def)
  next
    case (Some e)
    obtain bs M W1 where a: "bm_all E (eng_state e W) = (bs, (M, W1))" by (metis surj_pair)
    have eo: "engine_of E n e" by (rule app_okD(2) [OF assms(1) mem Some])
    have ok: "manager_ok E (eng_state e W)"
      using engine_manager_ok [OF app_okD(1) [OF assms(1)] _ eo] mem by blast
    have "get_summary_vector E (eng_state e W) = (bs, (M, W1))"
      using a by (simp add: get_summary_vector_def bm_get_bundles_from_node_def bm_all_def)
    from confined_all(1) [OF confined_UNIV [OF ok] this]
    have st: "stays E UNIV (eng_state e W) (eng_state (e\<lparr>bundle_manager := M\<rparr>) W1)" by simp
    note es = engine_step_files [OF app_okD(1) [OF assms(1)] _ eo st]
    let ?n = "n\<lparr>routing_engine := Some (e\<lparr>bundle_manager := M\<rparr>)\<rparr>"
    from assms(2) n Some a have "app_nodes A' = put_node_at name ?n (app_nodes A)" "W' = W1"
      "listeners A' = listeners A" "retriers A' = retriers A"
      by (auto simp: cmd_status_def)
    then show ?thesis using es mem
      by (intro put_node_app_ok [OF assms(1) n, of ?n]) (auto simp: same_node_def engine_of_def)
  qed
qed

lemma cmd_send_form:
  assumes "cmd_send E from to message ttl A W = Some (out, A', W')"
  obtains d n e W1 b W2 e' b' where "find_node (app_nodes A) to = Some d"
    and "find_node (app_nodes A) from = Some n" and "ensure_engine E n W = Some (e, W1)"
    and "bundle_new E (Node.truncate n) (Node.truncate d) (Data message) ttl W1 = (b, W2)"
    and "route_bundle E (e\<lparr>eng_peers := n_peers n\<rparr>) b W2 = Some (e', b', W')"
    and "A' = A\<lparr>app_nodes := put_node_at from (n\<lparr>routing_engine := Some e'\<rparr>) (app_nodes A)\<rparr>"
proof -
  from assms obtain d n e W1 where d: "find_node (app_nodes A) to = Some d"
    and n: "find_node (app_nodes A) from = Some n" and e: "ensure_engine E n W = Some (e, W1)"
    by (auto simp: cmd_send_def bind_eq_Some_conv Let_def)
  obtain b W2 where b: "bundle_new E (Node.truncate n) (Node.truncate d) (Data message) ttl W1 = (b, W2)"
    by fastforce
  from assms d n e b that show thesis
    by (auto simp: cmd_send_def bind_eq_Some_conv Let_def)
qed

lemma cmd_send_ok:
  assumes "app_ok E (A, W)" and "cmd_send E from to message ttl A W = Some (out, A', W')"
  shows "app_ok E (A', W')"
proof -
  obtain d n e W1 b W2 e' b' where d: "find_node (app_nodes A) to = Some d" and
    n: "find_node (app_nodes A) from = Some n" and e: "ensure_engine E n W = Some (e, W1)" and
    b: "bundle_new E (Node.truncate n) (Node.truncate d) (Data message) ttl W1 = (b, W2)" and
    r: "route_bundle E (e\<lparr>eng_peers := n_peers n\<rparr>) b W2 = Some (e', b', W')" and
    A': "A' = A\<lparr>app_nodes := put_node_at from (n\<lparr>routing_engine := Some e'\<rparr>) (app_nodes A)\<rparr>"
    by (rule cmd_send_form [OF assms(2)])
  let ?e = "e\<lparr>eng_peers := n_peers n\<rparr>"
  have mem: "n \<in> set (app_nodes A)" using find_nodeD [OF n] by blast
  note en = ensure_engine_ok [OF e app_okD(1) [OF assms(1)] app_okD(2) [OF assms(1) mem]]
  have eo: "engine_of E n ?e" using en(1) by (simp add: engine_of_def)
  have f2: "files_ok E (n_name ` set (app_nodes A)) W2"
    using en(2) bundle_new_simps(8) [OF b] by (simp add: files_ok_def disk_bundles_def)
  have ok: "manager_ok E (eng_state ?e W2)" using engine_manager_ok [OF f2 _ eo] mem by blast
  note st = route_bundle_stays [OF confined_UNIV [OF ok] _ _ _ r]
  have "files_ok E (n_name ` set (app_nodes A)) W'" "engine_of E n e'"
    using engine_step_files [OF f2 _ eo st(1)] same_config_id [OF st(2)] mem by simp_all
  then show ?thesis unfolding A'
    by (intro put_node_app_ok [OF assms(1) n]) (auto simp: same_node_def engine_of_def)
qed

text \<open>A peer command changes the peer list of the node and of its own engine, nothing else.\<close>

lemma sync_simps [simp]:
  "n_id (sync_node_engine_peers n) = n_id n" "n_name (sync_node_engine_peers n) = n_name n"
  "n_peers (sync_node_engine_peers n) = n_peers n"
  by (simp_all add: sync_node_engine_peers_def split: option.splits)

lemma sync_engine:
  "routing_engine (sync_node_engine_peers n) =
     map_option (\<lambda>e. e\<lparr>eng_peers := n_peers n\<rparr>) (routing_engine n)"
  by (simp add: sync_node_engine_peers_def split: option.splits)

lemma handle_peer_command_node:
  assumes "handle_peer_command E command n known W = Some (out, n', W')"
  shows "same_node n n'" and "net_step B W W'"
    and "routing_engine n' = None \<longleftrightarrow> routing_engine n = None"
    and "routing_engine n' = Some e' \<Longrightarrow> \<exists>e. routing_engine n = Some e \<and> e' = e\<lparr>eng_peers := eng_peers e'\<rparr>"
proof -
  have "same_node n n' \<and> net_step B W W' \<and> (routing_engine n' = routing_engine n \<or>
      routing_engine n' = map_option (\<lambda>e. e\<lparr>eng_peers := n_peers n'\<rparr>) (routing_engine n))"
  proof (cases command)
    case ListPeers
    with assms show ?thesis by (auto simp: handle_peer_command_def same_node_def)
  next
    case (GetConnectedPeersCmd texts)
    from assms GetConnectedPeersCmd obtain us where u: "parse_uuids E texts = Some us"
      by (auto simp: handle_peer_command_def bind_eq_Some_conv)
    obtain ps V where q: "(case routing_engine n of
        Some e \<Rightarrow> get_connected_peers_from_server E (registry_address e) us W | None \<Rightarrow> ([], W)) = (ps, V)"
      by fastforce
    from assms GetConnectedPeersCmd u q have "n' = n" "W' = V"
      by (simp_all add: handle_peer_command_def)
    moreover have "net_step B W V" using q by (cases "routing_engine n") (auto intro: get_connected_net_step)
    ultimately show ?thesis by (simp add: same_node_def)
  next
    case (AddPeer name)
    with assms show ?thesis
      by (auto simp: handle_peer_command_def same_node_def sync_engine split: option.splits if_splits)
  next
    case (RemovePeer name)
    with assms show ?thesis
      by (auto simp: handle_peer_command_def same_node_def sync_engine Let_def
          split: option.splits if_splits)
  qed
  then show "same_node n n'" "net_step B W W'" "routing_engine n' = None \<longleftrightarrow> routing_engine n = None"
    "routing_engine n' = Some e' \<Longrightarrow> \<exists>e. routing_engine n = Some e \<and> e' = e\<lparr>eng_peers := eng_peers e'\<rparr>"
    by (cases "routing_engine n"; auto)+
qed

lemma cmd_peers_ok:
  assumes "app_ok E (A, W)" and "cmd_peers E name command A W = Some (out, A', W')"
  shows "app_ok E (A', W')"
proof -
  from assms(2) obtain n n' where n: "find_node (app_nodes A) name = Some n"
    and h: "handle_peer_command E command n (known_nodes (app_nodes A)) W = Some (out, n', W')"
    and A': "A' = A\<lparr>app_nodes := put_node_at name n' (app_nodes A)\<rparr>"
    by (auto simp: cmd_peers_def bind_eq_Some_conv)
  have mem: "n \<in> set (app_nodes A)" using find_nodeD [OF n] by blast
  note hn = handle_peer_command_node [OF h]
  have "engine_of E n' e'" if x: "routing_engine n' = Some e'" for e'
  proof -
    from hn(4) [OF x] obtain e where e: "routing_engine n = Some e" "e' = e\<lparr>eng_peers := eng_peers e'\<rparr>" by blast
    have "engine_of E n e" by (rule app_okD(2) [OF assms(1) mem e(1)])
    then have "engine_of E n (e\<lparr>eng_peers := eng_peers e'\<rparr>)" by (simp add: engine_of_def)
    then show ?thesis using engine_of_same [OF hn(1)] e(2) by metis
  qed
  then show ?thesis
    using files_ok_net [OF hn(2)] app_okD(1) [OF assms(1)]
    by (intro put_node_app_ok [OF assms(1) n hn(1)]) (auto simp: A')
qed

lemma cmd_stop_result:
  assumes "cmd_stop name A = Some (out, A')"
  obtains n where "find_node (app_nodes A) name = Some n"
    and "A' = A\<lparr>registry_streams := (registry_streams A)(n_id n := None)\<rparr>"
proof -
  from assms obtain n where n: "find_node (app_nodes A) name = Some n"
    by (auto simp: cmd_stop_def bind_eq_Some_conv)
  have "A' = A\<lparr>registry_streams := (registry_streams A)(n_id n := None)\<rparr>"
    using assms n by (auto simp: cmd_stop_def Let_def fun_upd_idem split: if_splits)
  with n that show thesis by blast
qed

lemma handle_command_ok:
  assumes "app_ok E (A, W)" and "handle_command E c A W = Some (out, A', W')"
  shows "app_ok E (A', W')"
proof (cases c)
  case AllNodes
  with assms show ?thesis by simp
next
  case (Start name server)
  with assms(2) cmd_start_ok [OF assms(1)] show ?thesis by simp
next
  case (Stop name)
  with assms(2) have s: "cmd_stop name A = Some (out, A')" and w: "W' = W" by (auto simp: bind_eq_Some_conv)
  from cmd_stop_result [OF s] obtain R where "A' = A\<lparr>registry_streams := R\<rparr>" by metis
  then show ?thesis using assms(1) w by (simp add: app_ok_def)
next
  case (Status name)
  with assms(2) cmd_status_ok [OF assms(1)] show ?thesis by simp
next
  case (PeersCmd name command)
  with assms(2) cmd_peers_ok [OF assms(1)] show ?thesis by simp
next
  case (Send sender recipient message ttl)
  with assms(2) cmd_send_ok [OF assms(1)] show ?thesis by simp
qed

text \<open>The thread of a listener or of a retry loop.\<close>

lemma thread_ok:
  assumes "app_ok E (A, W)" and "e \<in> snd ` set (listeners A) \<union> snd ` set (retriers A)"
    and "manager_ok E (eng_state e W) \<Longrightarrow> stays E UNIV (eng_state e W) (eng_state e' W') \<and> same_config e e'"
  shows "app_ok E (A, W')" and "\<exists>n \<in> set (app_nodes A). engine_of E n e'"
proof -
  from app_okD(3) [OF assms(1,2)] obtain n where n: "n \<in> set (app_nodes A)" "engine_of E n e" by blast
  have f: "files_ok E (n_name ` set (app_nodes A)) W" by (rule app_okD(1) [OF assms(1)])
  have "manager_ok E (eng_state e W)" using engine_manager_ok [OF f _ n(2)] n(1) by blast
  from assms(3) [OF this] have st: "stays E UNIV (eng_state e W) (eng_state e' W')"
    and id: "eng_node_id e' = eng_node_id e" by (simp_all add: same_config_id)
  note es = engine_step_files [OF f _ n(2) st id]
  show "app_ok E (A, W')" using es(1) n(1) assms(1) by (simp add: app_ok_def)
  show "\<exists>n \<in> set (app_nodes A). engine_of E n e'" using es(2) n(1) by blast
qed

lemma app_step_ok:
  assumes "app_step query E s s'" and "\<And>is V. net_step {} V (snd (query is V))" and "app_ok E s"
  shows "app_ok E s'"
  using assms(1,3)
proof cases
  case (command c A W out A' W')
  then show ?thesis using handle_command_ok assms(3) by blast
next
  case (connection port e A S W e' S' W')
  have "stays E UNIV (eng_state e W) (eng_state e' W') \<and> same_config e e'" if "manager_ok E (eng_state e W)"
    using handle_peer_stays [OF connection(4) confined_UNIV [OF that]] by simp
  from thread_ok(1) [OF _ _ this] connection assms(3) show ?thesis by force
next
  case (retry k A i e W e' W')
  have mem: "e \<in> snd ` set (listeners A) \<union> snd ` set (retriers A)"
    using nth_mem [OF retry(3)] retry(4) by force
  have "stays E UNIV (eng_state e W) (eng_state e' W') \<and> same_config e e'" if "manager_ok E (eng_state e W)"
    using retry_stays [OF confined_UNIV [OF that] _ _ retry(6)] assms(2) by simp
  note t = thread_ok [OF _ mem this]
  have "app_ok E (A, W)" using assms(3) retry(1) by simp
  note t = t [OF this]
  let ?A = "A\<lparr>retriers := (retriers A)[k := (i, e')]\<rparr>"
  have "\<exists>n \<in> set (app_nodes A). engine_of E n x"
    if "x \<in> snd ` set (listeners A) \<union> snd ` set (retriers ?A)" for x
  proof -
    from that set_update_subset_insert [of "retriers A" k "(i, e')"]
    have "x = e' \<or> x \<in> snd ` set (listeners A) \<union> snd ` set (retriers A)" by auto
    then show ?thesis using t(2) app_okD(3) [OF t(1)] by blast
  qed
  then have "app_ok E (?A, W')" using t(1) by (simp add: app_ok_def)
  then show ?thesis unfolding retry(2) .
qed

lemma app_run_ok:
  assumes "app_run query E s s'" and "\<And>is V. net_step {} V (snd (query is V))" and "app_ok E s"
  shows "app_ok E s'"
  using assms(1,3) by induction (use app_step_ok assms(2) in blast)+

section \<open>The start of the program\<close>

lemma node_new_result:
  assumes "node_new E name address port peers W = Some (n, W')"
  shows "n_name n = name" and "disk W' = disk W" and "\<exists>e. routing_engine n = Some e \<and> engine_of E n e"
proof -
  from assms obtain i e where e: "engine_new E i peers name W = Some (e, W')"
    and n: "n = \<lparr>n_id = i, n_name = name, n_address = address, n_port = port, n_peers = peers,
              routing_engine = Some e\<rparr>"
    by (auto simp: node_new_def bind_eq_Some_conv)
  note r = engine_new_result [OF e]
  show "n_name n = name" "disk W' = disk W" using r by (simp_all add: n)
  have "engine_of E n e" using r by (simp add: engine_of_def n)
  then show "\<exists>e. routing_engine n = Some e \<and> engine_of E n e" by (simp add: n)
qed

lemma initial_nodes_result:
  assumes "initial_nodes E W = Some (nodes, W')"
  shows "n_name ` set nodes = {''alice'', ''bob'', ''carol'', ''syrine''}" and "disk W' = disk W"
    and "n \<in> set nodes \<Longrightarrow> \<exists>e. routing_engine n = Some e \<and> engine_of E n e"
proof -
  from assms obtain ia ib ic sy a b c d W1 W2 W3 where
    n1: "node_new E ''alice'' ''127.0.0.1'' 9001 [ib] W = Some (a, W1)" and
    n2: "node_new E ''bob'' ''127.0.0.1'' 9002 [ic] W1 = Some (b, W2)" and
    n3: "node_new E ''carol'' ''127.0.0.1'' 9003 [sy] W2 = Some (c, W3)" and
    n4: "node_new E ''syrine'' ''127.0.0.1'' 9004 [] W3 = Some (d, W')" and
    nodes: "nodes = [a, b, c, d]"
    by (auto simp: initial_nodes_def bind_eq_Some_conv)
  note r = node_new_result [OF n1] node_new_result [OF n2] node_new_result [OF n3] node_new_result [OF n4]
  show "n_name ` set nodes = {''alice'', ''bob'', ''carol'', ''syrine''}" using r by (simp add: nodes)
  show "disk W' = disk W" using r by simp
  show "n \<in> set nodes \<Longrightarrow> \<exists>e. routing_engine n = Some e \<and> engine_of E n e"
    using r by (auto simp: nodes)
qed

lemma initial_app_ok:
  assumes "initial_nodes E W = Some (nodes, W')"
    and "files_ok E {''alice'', ''bob'', ''carol'', ''syrine''} W"
  shows "app_ok E (initial_app nodes, W')"
proof -
  note r = initial_nodes_result [OF assms(1)]
  have "files_ok E (n_name ` set nodes) W'" using assms(2) files_ok_disk [OF r(2), of E] r(1) by simp
  moreover have "engine_of E n e" if "n \<in> set nodes" "routing_engine n = Some e" for n e
    using r(3) [OF that(1)] that(2) by simp
  ultimately show ?thesis by (simp add: app_ok_def initial_app_def)
qed

text \<open>On an empty disk the invariant holds from the start.\<close>

lemma empty_files_ok:
  assumes "serde_laws E" and "\<And>p. disk W p = None"
  shows "files_ok E {''alice'', ''bob'', ''carol'', ''syrine''} W"
proof -
  have "separate E {''alice'', ''bob'', ''carol'', ''syrine''}" by (rule separate_plain) auto
  then show ?thesis using assms by (simp add: files_ok_def disk_bundles_def well_formed_Nil)
qed

section \<open>Threads\<close>

text \<open>One listener thread per port and one retry thread per node, however often nodes start.\<close>

definition threads_ok :: "app \<Rightarrow> bool" where
  "threads_ok A \<longleftrightarrow> distinct (map fst (listeners A)) \<and> set (map fst (listeners A)) = listening_ports A \<and>
     distinct (map fst (retriers A)) \<and> set (map fst (retriers A)) = retrying_nodes A"

definition same_threads :: "app \<Rightarrow> app \<Rightarrow> bool" where
  "same_threads A A' \<longleftrightarrow> listeners A' = listeners A \<and> listening_ports A' = listening_ports A \<and>
     retriers A' = retriers A \<and> retrying_nodes A' = retrying_nodes A"

lemma same_threads_ok: "same_threads A A' \<Longrightarrow> threads_ok A \<Longrightarrow> threads_ok A'"
  by (simp add: same_threads_def threads_ok_def)

lemma cmd_start_threads:
  assumes "cmd_start E name server A W = Some (out, A', W')" and "threads_ok A"
  shows "threads_ok A'"
proof -
  from assms(1) obtain n where n: "find_node (app_nodes A) name = Some n"
    by (auto simp: cmd_start_def bind_eq_Some_conv)
  obtain c W1 where c: "connect_to_server E (Node.truncate n) server W = (c, W1)" by fastforce
  show ?thesis
  proof (cases c)
    case None
    with assms n c show ?thesis by (simp add: cmd_start_def)
  next
    case (Some S)
    with assms(1) n c obtain e where e: "ensure_engine E n W1 = Some (e, W')"
      by (auto simp: cmd_start_def bind_eq_Some_conv Let_def)
    then show ?thesis using assms n c Some
      by (cases "n_port n \<in> listening_ports A"; cases "n_id n \<in> retrying_nodes A";
        clarsimp simp: cmd_start_def Let_def threads_ok_def)
  qed
qed

lemma cmd_status_form:
  assumes "cmd_status E name A W = Some (out, A', W')"
  obtains N where "A' = A\<lparr>app_nodes := N\<rparr>"
proof -
  from assms obtain n where n: "find_node (app_nodes A) name = Some n"
    by (auto simp: cmd_status_def bind_eq_Some_conv)
  show thesis
  proof (cases "routing_engine n")
    case None
    with assms n have "A' = A\<lparr>app_nodes := put_node_at name n (app_nodes A)\<rparr>" by (auto simp: cmd_status_def)
    then show ?thesis by (rule that)
  next
    case (Some e)
    obtain bs M W1 where a: "bm_all E (eng_state e W) = (bs, (M, W1))" by (metis surj_pair)
    let ?n = "n\<lparr>routing_engine := Some (e\<lparr>bundle_manager := M\<rparr>)\<rparr>"
    from assms n Some a have "A' = A\<lparr>app_nodes := put_node_at name ?n (app_nodes A)\<rparr>"
      by (auto simp: cmd_status_def)
    then show ?thesis by (rule that)
  qed
qed

lemma other_commands_threads:
  assumes "handle_command E c A W = Some (out, A', W')" and "\<And>name server. c \<noteq> Start name server"
  shows "same_threads A A'"
proof (cases c)
  case (Stop name)
  with assms(1) have s: "cmd_stop name A = Some (out, A')" by (auto simp: bind_eq_Some_conv)
  from cmd_stop_result [OF s] obtain R where "A' = A\<lparr>registry_streams := R\<rparr>" by metis
  then show ?thesis by (simp add: same_threads_def)
next
  case (Status name)
  with assms(1) obtain N where "A' = A\<lparr>app_nodes := N\<rparr>" by (auto elim: cmd_status_form)
  then show ?thesis by (simp add: same_threads_def)
next
  case (PeersCmd name command)
  with assms(1) show ?thesis by (auto simp: cmd_peers_def same_threads_def bind_eq_Some_conv)
next
  case (Send sender recipient message ttl)
  with assms(1) obtain N where "A' = A\<lparr>app_nodes := N\<rparr>" by (auto elim: cmd_send_form)
  then show ?thesis by (simp add: same_threads_def)
qed (use assms in \<open>simp_all add: same_threads_def\<close>)

lemma app_step_threads:
  assumes "app_step query E (A, W) (A', W')" and "threads_ok A"
  shows "threads_ok A'"
  using assms(1)
proof cases
  case (command c out)
  show ?thesis
  proof (cases "\<exists>name server. c = Start name server")
    case True
    with command assms(2) show ?thesis by (auto intro: cmd_start_threads)
  next
    case False
    with command have "same_threads A A'" by (intro other_commands_threads) auto
    then show ?thesis using assms(2) by (rule same_threads_ok)
  qed
next
  case (connection port e S e' S')
  with assms(2) show ?thesis by simp
next
  case (retry k i e e')
  then have "map fst ((retriers A)[k := (i, e')]) = map fst (retriers A)"
    by (simp add: map_update list_update_same_conv)
  then have "map fst (retriers A') = map fst (retriers A)" using retry(1) by simp
  moreover have "listeners A' = listeners A" "listening_ports A' = listening_ports A"
    "retrying_nodes A' = retrying_nodes A" using retry(1) by simp_all
  ultimately show ?thesis using assms(2) unfolding threads_ok_def by (simp only:)
qed

section \<open>Sending a message\<close>

lemma disk_of_engine:
  "engine_of E n e \<Longrightarrow> bm_view E (eng_state e W) = disk_bundles E (node_dir E (n_name n)) W"
  by (simp add: engine_of_def bm_view_def bm_store_def store_view_def)

text \<open>
  A message to another node is in the store of the sender when the command returns, unless
  there is no room, its identifier is taken or acknowledged, or it has expired by then.
\<close>

lemma cmd_send_stores:
  assumes "app_ok E (A, W)" and "io_ok E" and "find_node (app_nodes A) from = Some n"
    and "find_node (app_nodes A) to = Some d" and "routing_engine n = Some e" and "n_id n \<noteq> n_id d"
    and "bundle_new E (Node.truncate n) (Node.truncate d) (Data message) ttl W = (b, W1)"
    and "\<not> expired_at E (now E (tick W1)) b"
    and "length (disk_bundles E (node_dir E from) W) < 100"
    and "\<not> has_id (disk_bundles E (node_dir E from) W) (b_id b)"
    and "\<not> has_ack (disk_bundles E (node_dir E from) W) (b_id b)"
  shows "\<exists>A' W' st. handle_command E (Send from to message ttl) A W = Some ([], A', W') \<and>
    b\<lparr>b_status := st\<rparr> \<in> set (disk_bundles E (node_dir E from) W') \<and> st \<in> {Pending, InTransit}"
proof -
  let ?e = "e\<lparr>eng_peers := n_peers n\<rparr>"
  have mem: "n \<in> set (app_nodes A)" and name: "n_name n = from" using find_nodeD [OF assms(3)] by simp_all
  have eo: "engine_of E n ?e" using app_okD(2) [OF assms(1) mem assms(5)] by (simp add: engine_of_def)
  note bs = bundle_new_simps [OF assms(7)]
  have disk: "disk W1 = disk W" by (simp add: bs(8))
  have f1: "files_ok E (n_name ` set (app_nodes A)) W1"
    using app_okD(1) [OF assms(1)] files_ok_disk [OF disk, of E] by simp
  have ok: "manager_ok E (eng_state ?e W1)" using engine_manager_ok [OF f1 _ eo] mem by blast
  have v: "bm_view E (eng_state ?e (tock W1)) = disk_bundles E (node_dir E from) W"
    using disk_of_engine [OF eo, of "tock W1"] disk by (simp add: name disk_bundles_def)
  obtain ps W2 where c: "connected_peers E ?e (n_id (b_source b)) (tock W1) = (ps, W2)" by fastforce
  note net = connected_peers_net_step [OF c]
  have ok2: "manager_ok E (eng_state ?e W2)"
    using ok net_step_view(2) [OF net_step_tock] net_step_view(2) [OF net] by blast
  have v2: "bm_view E (eng_state ?e W2) = disk_bundles E (node_dir E from) W"
    using net_step_view(1) [OF net] v by metis
  have id: "eng_node_id ?e \<noteq> n_id (b_destination b)"
    using eo assms(6) bs(2) by (simp add: engine_of_def Node.truncate_def)
  obtain e' b' W' where r: "route_onward E ?e b ps W2 = Some (e', b', W')"
    using route_onward_total [OF ok2] by (metis not_None_eq surj_pair)
  have rb: "route_bundle E ?e b W1 = Some (e', b', W')"
    using r c id assms(8) bs(3) by (simp add: route_bundle_def route_data_def is_expired_eq)
  have cap: "bm_cap (eng_state ?e W2) = 100" using eo by (simp add: engine_of_def bm_cap_def)
  have st: "b' \<in> set (bm_view E (eng_state e' W'))" "b' \<in> {b, b\<lparr>b_status := InTransit\<rparr>}"
    using route_onward_stores [OF ok2 assms(2) _ _ _ r] assms(9-11) v2 cap by simp_all
  note rs = route_bundle_stays [OF confined_UNIV [OF ok] _ _ _ rb]
  have "engine_of E n e'" using engine_step_files(2) [OF f1 _ eo rs(1)] same_config_id [OF rs(2)] mem by simp
  then have "b' \<in> set (disk_bundles E (node_dir E from) W')"
    using st(1) disk_of_engine [of E n e' W'] by (simp add: name)
  moreover have "b = b\<lparr>b_status := Pending\<rparr>" using bs(5) by (metis Bundle.surjective Bundle.update_convs(7))
  ultimately have "\<exists>st. b\<lparr>b_status := st\<rparr> \<in> set (disk_bundles E (node_dir E from) W') \<and> st \<in> {Pending, InTransit}"
    using st(2) by (metis insertE insertI1 insertI2 singletonD)
  moreover have "handle_command E (Send from to message ttl) A W =
      Some ([], A\<lparr>app_nodes := put_node_at from (n\<lparr>routing_engine := Some e'\<rparr>) (app_nodes A)\<rparr>, W')"
    by (simp add: cmd_send_def assms(3,4,5,7) ensure_engine_def rb)
  ultimately show ?thesis by blast
qed

section \<open>When a command ends the process\<close>

fun command_names :: "NodeCommands \<Rightarrow> string list" where
  "command_names AllNodes = []"
| "command_names (Start name server) = [name]"
| "command_names (Stop name) = [name]"
| "command_names (Status name) = [name]"
| "command_names (PeersCmd name c) = [name]"
| "command_names (Send from to message ttl) = [from, to]"

fun command_texts :: "NodeCommands \<Rightarrow> string list" where
  "command_texts (PeersCmd name (GetConnectedPeersCmd texts)) = texts"
| "command_texts _ = []"

lemma parse_uuids_total: "(\<forall>s \<in> set ss. uuid_parse_str E s \<noteq> None) \<Longrightarrow> \<exists>us. parse_uuids E ss = Some us"
  by (induction ss) auto

text \<open>
  With an engine in every node only an unknown name and a text that is no identifier end the
  process; a store that cannot be read or written never does.
\<close>

lemma handle_command_total:
  assumes "app_ok E (A, W)" and "\<And>n. n \<in> set (app_nodes A) \<Longrightarrow> routing_engine n \<noteq> None"
    and "\<And>name. name \<in> set (command_names c) \<Longrightarrow> find_node (app_nodes A) name \<noteq> None"
    and "\<And>s. s \<in> set (command_texts c) \<Longrightarrow> uuid_parse_str E s \<noteq> None"
  shows "handle_command E c A W \<noteq> None"
proof (cases c)
  case AllNodes
  then show ?thesis by simp
next
  case (Start name server)
  then obtain n where n: "find_node (app_nodes A) name = Some n" using assms(3) by fastforce
  then obtain e where e: "routing_engine n = Some e" using assms(2) find_nodeD by blast
  show ?thesis using Start n e by (auto simp: cmd_start_def ensure_engine_def Let_def split: prod.splits option.splits)
next
  case (Stop name)
  then obtain n where "find_node (app_nodes A) name = Some n" using assms(3) by fastforce
  then show ?thesis using Stop by (simp add: cmd_stop_def Let_def)
next
  case (Status name)
  then obtain n where "find_node (app_nodes A) name = Some n" using assms(3) by fastforce
  then show ?thesis using Status by (auto simp: cmd_status_def Let_def split: prod.splits)
next
  case (PeersCmd name command)
  then obtain n where n: "find_node (app_nodes A) name = Some n" using assms(3) by fastforce
  have "handle_peer_command E command n k W \<noteq> None" for k
  proof (cases command)
    case (GetConnectedPeersCmd texts)
    then obtain us where "parse_uuids E texts = Some us"
      using parse_uuids_total [of texts E] assms(4) PeersCmd by auto
    then show ?thesis using GetConnectedPeersCmd
      by (auto simp: handle_peer_command_def Let_def split: prod.splits)
  qed (auto simp: handle_peer_command_def Let_def split: option.splits)
  then show ?thesis using PeersCmd n
    by (auto simp: cmd_peers_def total_simps simp del: not_None_eq split: prod.splits)
next
  case (Send sender recipient message ttl)
  then obtain n d where n: "find_node (app_nodes A) sender = Some n"
    and d: "find_node (app_nodes A) recipient = Some d" using assms(3) by fastforce
  have mem: "n \<in> set (app_nodes A)" using find_nodeD [OF n] by blast
  then obtain e where e: "routing_engine n = Some e" using assms(2) by blast
  obtain b W1 where b: "bundle_new E (Node.truncate n) (Node.truncate d) (Data message) ttl W = (b, W1)"
    by fastforce
  have eo: "engine_of E n (e\<lparr>eng_peers := n_peers n\<rparr>)"
    using app_okD(2) [OF assms(1) mem e] by (simp add: engine_of_def)
  have "disk W1 = disk W" by (simp add: bundle_new_simps(8) [OF b])
  then have "files_ok E (n_name ` set (app_nodes A)) W1"
    using app_okD(1) [OF assms(1)] files_ok_disk [of W1 W E] by simp
  from route_bundle_total [OF engine_manager_ok [OF this _ eo]] mem
  have "route_bundle E (e\<lparr>eng_peers := n_peers n\<rparr>) b W1 \<noteq> None" by blast
  then show ?thesis using Send n d e b
    by (auto simp: cmd_send_def ensure_engine_def total_simps simp del: not_None_eq split: prod.splits)
qed

section \<open>The interactive loop\<close>

text \<open>At the end of the input \<open>read_line\<close> gives empty lines for ever and the loop goes on.\<close>

lemma interactive_empty: "interactive E clap (replicate k (Some [])) A W = Some (False, [], A, W)"
  by (induction k) (simp_all add: trim_def)

text \<open>The loop is left by \<open>exit\<close> or \<open>quit\<close>.\<close>

definition is_exit :: "string \<Rightarrow> bool" where
  "is_exit input \<longleftrightarrow> eq_ignore_case input ''exit'' \<or> eq_ignore_case input ''quit''"

lemma is_exit_Nil [simp]: "\<not> is_exit []"
  by (simp add: is_exit_def eq_ignore_case_def)

lemma interactive_exit_iff:
  "interactive E clap lines A W = Some (left, out, A', W') \<Longrightarrow>
     left \<longleftrightarrow> (\<exists>line. Some line \<in> set lines \<and> is_exit (trim line))"
proof (induction lines arbitrary: A W left out)
  case Nil
  then show ?case by auto
next
  case (Cons l lines)
  show ?case
  proof (cases l)
    case None
    then show ?thesis using Cons by auto
  next
    case (Some line)
    have later: ?thesis if "\<not> is_exit (trim line)" "interactive E clap lines B V = Some (left, out2, A', W')" for B V out2
      using Cons.IH [OF that(2)] that(1) Some by auto
    consider "trim line = []" | "is_exit (trim line)" "trim line \<noteq> []"
      | "trim line \<noteq> []" "\<not> is_exit (trim line)" by blast
    then show ?thesis
    proof cases
      case 1
      then show ?thesis using Cons.prems Some later by simp
    next
      case 2
      then show ?thesis using Cons.prems Some by (auto simp: is_exit_def)
    next
      case n: 3
      from Cons.prems n Some obtain B V out2 where "interactive E clap lines B V = Some (left, out2, A', W')"
        by (auto simp: is_exit_def bind_eq_Some_conv Let_def split: if_splits option.splits)
      then show ?thesis using later n(2) by blast
    qed
  qed
qed

lemmas interactive_left_iff = interactive_exit_iff [unfolded is_exit_def]

text \<open>The line is split at blanks, also inside quotation marks.\<close>

lemma quoted_message_is_split:
  "split_ws [] (''--message '' @ [CHR 0x22] @ ''hello from alice'' @ [CHR 0x22]) =
     [''--message'', CHR 0x22 # ''hello'', ''from'', ''alice'' @ [CHR 0x22]]"
  by code_simp

section \<open>A time to live of \<open>2 ^ 63\<close> seconds or more\<close>

lemma cmd_send_huge_ttl:
  assumes "app_ok E (A, W)" and "io_ok E" and "cmd_send E from to message ttl A W = Some (out, A', W')"
    and "2 ^ 63 \<le> uint ttl" and "\<And>m n. m \<le> n \<Longrightarrow> 0 \<le> age_seconds E (now E n) (now E m)"
    and "\<And>n. find_node (app_nodes A) from = Some n \<Longrightarrow> routing_engine n \<noteq> None"
  shows "disk_bundles E (node_dir E from) W' =
      remove_id (new_v4 E (tick W)) (disk_bundles E (node_dir E from) W)" and "frames W' = frames W"
proof -
  obtain d n e W1 b W2 e' b' where "find_node (app_nodes A) to = Some d" and
    n: "find_node (app_nodes A) from = Some n" and e: "ensure_engine E n W = Some (e, W1)" and
    b: "bundle_new E (Node.truncate n) (Node.truncate d) (Data message) ttl W1 = (b, W2)" and
    r: "route_bundle E (e\<lparr>eng_peers := n_peers n\<rparr>) b W2 = Some (e', b', W')" and
    "A' = A\<lparr>app_nodes := put_node_at from (n\<lparr>routing_engine := Some e'\<rparr>) (app_nodes A)\<rparr>"
    by (rule cmd_send_form [OF assms(3)])
  let ?e = "e\<lparr>eng_peers := n_peers n\<rparr>"
  have mem: "n \<in> set (app_nodes A)" and name: "n_name n = from" using find_nodeD [OF n] by blast+
  from assms(6) [OF n] e have eng: "routing_engine n = Some e" and W1: "W1 = W"
    by (auto simp: ensure_engine_def)
  have eo: "engine_of E n ?e" using app_okD(2) [OF assms(1) mem eng] by (simp add: engine_of_def)
  note bs = bundle_new_simps [OF b]
  have x: "expired_at E (now E (tick W2)) b"
    using assms(5) [of "Suc (tick W)" "tick W2"] assms(4) by (intro huge_ttl_expired) (simp_all add: bs W1)
  have f2: "files_ok E (n_name ` set (app_nodes A)) W2"
    using app_okD(1) [OF assms(1)] bs(8) by (simp add: files_ok_def disk_bundles_def W1)
  have serde: "serde_laws E" using f2 by (simp add: files_ok_def)
  have ok: "manager_ok E (eng_state ?e W2)" using engine_manager_ok [OF f2 _ eo] mem by blast
  have k: "\<not> is_Ack (b_kind b)" by (simp add: bs(3))
  note rx = route_expired_exact [OF serde assms(2) k x r]
  note st = route_bundle_stays [OF confined_UNIV [OF ok] _ _ _ r]
  have eo': "engine_of E n e'" using engine_step_files(2) [OF f2 _ eo st(1)] same_config_id [OF st(2)] mem by simp
  have "disk_bundles E (node_dir E from) W2 = disk_bundles E (node_dir E from) W"
    by (simp add: bs(8) disk_bundles_def W1)
  then show "disk_bundles E (node_dir E from) W' =
      remove_id (new_v4 E (tick W)) (disk_bundles E (node_dir E from) W)"
    using rx(1) disk_of_engine [OF eo, of W2] disk_of_engine [OF eo', of W'] by (simp add: name bs(6) W1)
  show "frames W' = frames W" using rx(3) by (simp add: bs(8) W1)
qed

end
