(* ===== verification/Delivery.thy ===== *)
theory Delivery
  imports Cli_Facts
begin

text \<open>
  Nodes on different machines that exchange bundles. Each node has its environment, its
  engine and its world; the network delivers any frame that some node has written to any
  node, in any order, any number of times or never. A delivery is \<open>take_in\<close> of
  \<open>Peer_Loop\<close>, what the receiving loop does with a bundle. \<open>created\<close> and \<open>arrived\<close> are history: the bundles users have
  sent, and the pairs of a node and a bundle that reached it as its destination.
\<close>

section \<open>The system\<close>

record system =
  node_at :: "uuid \<Rightarrow> RoutingEngine \<times> world"
  created :: "Bundle set"
  arrived :: "(uuid \<times> uuid) set"

text \<open>What the node with environment \<open>F\<close> decodes from the message of the other.\<close>

definition hop :: "'v env \<Rightarrow> 'v env \<Rightarrow> Bundle \<Rightarrow> Bundle" where
  "hop F E b = bundle_of_proto F (proto_of_bundle E b)"

definition arrivals :: "uuid \<Rightarrow> Bundle \<Rightarrow> (uuid \<times> uuid) set" where
  "arrivals i b = (if \<not> is_Ack (b_kind b) \<and> i = n_id (b_destination b) then {(i, b_id b)} else {})"

definition put_state :: "uuid \<Rightarrow> RoutingEngine \<times> world \<Rightarrow> system \<Rightarrow> system" where
  "put_state i s N = N\<lparr>node_at := (node_at N)(i := s)\<rparr>"

inductive sys_step ::
    "(uuid list \<Rightarrow> world \<Rightarrow> PeerRecord list \<times> world) \<Rightarrow> (uuid \<Rightarrow> 'v env) \<Rightarrow> system \<Rightarrow> system \<Rightarrow> bool"
    for query :: "uuid list \<Rightarrow> world \<Rightarrow> PeerRecord list \<times> world" and E :: "uuid \<Rightarrow> 'v env" where
  send: "node_at N i = (e, W) \<Longrightarrow> bundle_new (E i) src dst (Data m) ttl W = (b, W1) \<Longrightarrow> n_id src = i \<Longrightarrow>
    route_bundle (E i) e b W1 = Some (e', b', W') \<Longrightarrow>
    sys_step query E N (put_state i (e', W')
      (N\<lparr>created := insert b (created N), arrived := arrived N \<union> arrivals i b\<rparr>))"
| deliver: "node_at N i = (e, W) \<Longrightarrow> (a, b) \<in> set (frames (snd (node_at N j))) \<Longrightarrow>
    c = hop (E i) (E j) b \<Longrightarrow> take_in (E i) e c W1 = Some (again, e', W') \<Longrightarrow> net_step {} W W1 \<Longrightarrow>
    sys_step query E N (put_state i (e', W') (N\<lparr>arrived := arrived N \<union> arrivals i c\<rparr>))"
| retry: "node_at N i = (e, W) \<Longrightarrow> retry_unsynced_bundles query (E i) e W = Some (e', W') \<Longrightarrow>
    sys_step query E N (put_state i (e', W') N)"
| drop: "node_at N i = (e, W) \<Longrightarrow> drop_expired_bundles (E i) (bundle_manager e, W) = Some (M, W') \<Longrightarrow>
    sys_step query E N (put_state i (e\<lparr>bundle_manager := M\<rparr>, W') N)"

inductive sys_run ::
    "(uuid list \<Rightarrow> world \<Rightarrow> PeerRecord list \<times> world) \<Rightarrow> (uuid \<Rightarrow> 'v env) \<Rightarrow> system \<Rightarrow> system \<Rightarrow> bool"
    for query :: "uuid list \<Rightarrow> world \<Rightarrow> PeerRecord list \<times> world" and E :: "uuid \<Rightarrow> 'v env" where
  start: "sys_run query E N N"
| next_step: "sys_run query E N N' \<Longrightarrow> sys_step query E N' N'' \<Longrightarrow> sys_run query E N N''"

section \<open>Authentic bundles\<close>

text \<open>What a bundle is but for the time stamp and the status, which the wire does not keep.\<close>

definition core :: "Bundle \<Rightarrow> Bundle" where
  "core b = b\<lparr>b_timestamp := 0, b_status := Pending\<rparr>"

definition authentic :: "Bundle set \<Rightarrow> (uuid \<times> uuid) set \<Rightarrow> Bundle set" where
  "authentic C R = {b. is_Data (b_kind b) \<and> core b \<in> core ` C} \<union>
     {a. \<exists>x \<in> C. acknowledges a x \<and> (n_id (b_destination x), b_id x) \<in> R}"

lemma core_eq:
  assumes "core b = core x"
  shows "b_id b = b_id x" and "b_source b = b_source x" and "b_destination b = b_destination x"
    and "b_ttl b = b_ttl x" and "b_kind b = b_kind x"
  using assms by (simp_all add: core_def) (metis Bundle.select_convs Bundle.surjective Bundle.update_convs)+

lemma acknowledges_core: "core b = core x \<Longrightarrow> acknowledges a b = acknowledges a x"
  using core_eq [of b x] by (simp add: acknowledges_def)

lemma core_status [simp]: "core (b\<lparr>b_status := st\<rparr>) = core b" "core (b\<lparr>b_timestamp := t\<rparr>) = core b"
  by (simp_all add: core_def)

lemma authentic_mono: "C \<subseteq> C' \<Longrightarrow> R \<subseteq> R' \<Longrightarrow> authentic C R \<subseteq> authentic C' R'"
  unfolding authentic_def by blast

lemma authentic_status: "status_closed (authentic C R)"
  by (auto simp: status_closed_def authentic_def)

text \<open>A node may create an acknowledgement for an authentic bundle that has arrived.\<close>

lemma authentic_ack:
  assumes "x \<in> authentic C R" and "\<not> is_Ack (b_kind x)" and "acknowledges a x"
    and "(n_id (b_destination x), b_id x) \<in> R"
  shows "a \<in> authentic C R"
proof -
  from assms(1,2) obtain y where y: "y \<in> C" "core x = core y"
    by (auto simp: authentic_def acknowledges_def)
  then show ?thesis using assms(3,4) acknowledges_core [OF y(2)] core_eq [OF y(2)]
    by (auto simp: authentic_def)
qed

section \<open>Hops\<close>

definition wire_laws :: "(uuid \<Rightarrow> 'v env) \<Rightarrow> bool" where
  "wire_laws E \<longleftrightarrow> (\<forall>i j u. uuid_parse_str (E i) (uuid_to_string (E j) u) = Some u)"

lemma hop_eq:
  assumes "wire_laws E" and "carriable b"
  shows "hop (E i) (E j) b =
    b\<lparr>b_timestamp := datetime_or_default (E i) (timestamp_seconds (E j) (b_timestamp b)), b_status := Pending\<rparr>"
proof -
  have p: "parse_uuid_or_nil (E i) (uuid_to_string (E j) u) = u" for u
    using assms(1) by (simp add: wire_laws_def parse_uuid_or_nil_def)
  have m: "map (parse_uuid_or_nil (E i) \<circ> uuid_to_string (E j)) us = us" for us
    by (rule map_idI) (simp add: p)
  show ?thesis
    using assms(2) by (cases "b_kind b")
      (simp_all add: hop_def proto_of_bundle_def bundle_of_proto_def carriable_def p m proto_kind_or_default_def)
qed

lemma hop_core: "wire_laws E \<Longrightarrow> carriable b \<Longrightarrow> \<exists>t. hop (E i) (E j) b = b\<lparr>b_timestamp := t, b_status := Pending\<rparr>"
  using hop_eq by blast

lemma authentic_carriable: "b \<in> authentic C R \<Longrightarrow> carriable b"
  by (auto simp: authentic_def carriable_def acknowledges_def)

lemma hop_authentic:
  assumes "wire_laws E" and "b \<in> authentic C R"
  shows "hop (E i) (E j) b \<in> authentic C R"
proof -
  obtain t where h: "hop (E i) (E j) b = b\<lparr>b_timestamp := t, b_status := Pending\<rparr>"
    using hop_core [OF assms(1) authentic_carriable [OF assms(2)]] by blast
  show ?thesis using assms(2) unfolding h authentic_def by (auto simp: acknowledges_def)
qed

section \<open>The invariant\<close>

definition sys_ok :: "(uuid \<Rightarrow> 'v env) \<Rightarrow> system \<Rightarrow> bool" where
  "sys_ok E N \<longleftrightarrow> (\<forall>i. case node_at N i of (e, W) \<Rightarrow>
     eng_node_id e = i \<and> confined (E i) (authentic (created N) (arrived N)) (eng_state e W) \<and>
     snd ` set (frames W) \<subseteq> authentic (created N) (arrived N))"

lemma sys_okD:
  assumes "sys_ok E N" and "node_at N i = (e, W)"
  shows "eng_node_id e = i" and "confined (E i) (authentic (created N) (arrived N)) (eng_state e W)"
    and "snd ` set (frames W) \<subseteq> authentic (created N) (arrived N)"
  using assms(1) [unfolded sys_ok_def, rule_format, of i] by (simp_all add: assms(2))

lemma confined_mono: "confined E D m \<Longrightarrow> D \<subseteq> D' \<Longrightarrow> confined E D' m"
  by (auto simp: confined_def)

text \<open>A step of one node, which may add to the history, keeps the invariant.\<close>

lemma sys_ok_put:
  assumes "sys_ok E N" and "node_at N i = (e, W)" and "created N \<subseteq> C" and "arrived N \<subseteq> R"
    and "stays (E i) (authentic C R) (eng_state e W) (eng_state e' W')" and "eng_node_id e' = eng_node_id e"
  shows "sys_ok E (put_state i (e', W') (N\<lparr>created := C, arrived := R\<rparr>))"
proof -
  let ?D = "authentic (created N) (arrived N)" and ?D' = "authentic C R"
  have mono: "?D \<subseteq> ?D'" using assms(3,4) by (rule authentic_mono)
  have "case (if k = i then (e', W') else node_at N k) of (f, V) \<Rightarrow>
      eng_node_id f = k \<and> confined (E k) ?D' (eng_state f V) \<and> snd ` set (frames V) \<subseteq> ?D'" for k
  proof (cases "k = i")
    case True
    obtain fs where "frames W' = frames W @ fs" "snd ` set fs \<subseteq> ?D'"
      using assms(5) by (auto simp: stays_def node_step_def)
    then have "snd ` set (frames W') \<subseteq> ?D'" using sys_okD(3) [OF assms(1,2)] mono by auto
    then show ?thesis using True assms(6) sys_okD(1) [OF assms(1,2)] stays_confined [OF assms(5)] by simp
  next
    case False
    obtain f V where fV: "node_at N k = (f, V)" by fastforce
    note ok = sys_okD [OF assms(1) fV]
    from confined_mono [OF ok(2) mono] ok(1,3) mono show ?thesis using False fV by auto
  qed
  then show ?thesis by (auto simp: sys_ok_def put_state_def)
qed

lemma same_record [simp]: "N\<lparr>created := created N\<rparr> = N" "N\<lparr>arrived := arrived N\<rparr> = N"
  by simp_all

text \<open>Routing an authentic bundle at node \<open>i\<close>, once its arrival is on record.\<close>

lemma route_ack_authentic:
  assumes "b \<in> authentic C R" and "arrivals i b \<subseteq> R"
    and "\<not> is_Ack (b_kind b)" and "i = n_id (b_destination b)" and "acknowledges a b"
  shows "a \<in> authentic C R"
  using authentic_ack [OF assms(1,3,5)] assms(2,3,4) by (simp add: arrivals_def)

lemma route_authentic:
  assumes "confined E (authentic C R) (eng_state e W)" and "b \<in> authentic C R"
    and "arrivals (eng_node_id e) b \<subseteq> R" and "route_bundle E e b W = Some (e', b', W')"
  shows "stays E (authentic C R) (eng_state e W) (eng_state e' W')" and "eng_node_id e' = eng_node_id e"
proof -
  note r = route_bundle_stays [OF assms(1) authentic_status assms(2) route_ack_authentic [OF assms(2,3)] assms(4)]
  show "stays E (authentic C R) (eng_state e W) (eng_state e' W')" by (rule r(1))
  show "eng_node_id e' = eng_node_id e" by (rule same_config_id [OF r(2)])
qed

lemma take_in_authentic:
  assumes "confined E (authentic C R) (eng_state e W)" and "b \<in> authentic C R"
    and "arrivals (eng_node_id e) b \<subseteq> R" and "take_in E e b W = Some (again, e', W')"
  shows "stays E (authentic C R) (eng_state e W) (eng_state e' W')" and "eng_node_id e' = eng_node_id e"
  using take_in_stays [OF assms(1) authentic_status assms(2) route_ack_authentic [OF assms(2,3)] assms(4)] same_config_id
  by blast+

lemma drop_stays:
  assumes "confined E D (M, W)" and "drop_expired_bundles E (M, W) = Some (M', W')"
  shows "stays E D (M, W) (M', W')"
proof -
  have ok: "manager_ok E (M, W)" using assms(1) by (simp add: confined_def)
  obtain bs M1 W1 where a: "bm_all E (M, W) = (bs, (M1, W1))" by (metis surj_pair)
  obtain ids W2 where x: "expired_ids E bs W1 = (ids, W2)" by fastforce
  have "get_summary_vector E (M, W) = (bs, (M1, W1))"
    using a by (simp add: get_summary_vector_def bm_get_bundles_from_node_def bm_all_def)
  note s1 = confined_all(1) [OF assms(1) this]
  have "bs = bm_view E (M, W) \<or> bs = []"
    using mgr.all_law [OF manager_okD(1) [OF ok] a] by blast
  then have "distinct (map b_id bs)" using manager_okD(2) [OF ok] by auto
  from later_net_step [OF expired_ids_eq(3) [OF this x], of "{}"]
  have n2: "net_step {} W1 W2" .
  from stays_trans [OF s1 confined_net [OF stays_confined [OF s1] n2]]
  have s2: "stays E D (M, W) (M1, W2)" by simp
  have ok2: "manager_ok E (M1, W2)" using stays_confined [OF s2] by (simp add: confined_def)
  from assms(2) have "delete_all E ids (M1, W2) = Some (M', W')"
    by (simp add: drop_expired_bundles_def a x)
  with delete_all_ok [OF ok2, of ids] have d: "manager_ok E (M', W')" "bm_step (M1, W2) (M', W')"
    "set (bm_view E (M', W')) \<subseteq> set (bm_view E (M1, W2))" by simp_all
  then have "stays E D (M1, W2) (M', W')"
    using stays_confined [OF s2] bm_step_node_step [OF d(2)] by (auto simp: stays_def confined_def)
  with s2 show ?thesis by (rule stays_trans)
qed

lemma sys_step_ok:
  assumes "sys_step query E N N'" and "wire_laws E" and "\<And>is V. net_step {} V (snd (query is V))"
    and "sys_ok E N"
  shows "sys_ok E N'"
  using assms(1)
proof cases
  case (send i e W src dst m ttl b W1 e' b' W')
  let ?C = "insert b (created N)" and ?R = "arrived N \<union> arrivals i b"
  note ok = sys_okD [OF assms(4) send(2)]
  have mono: "authentic (created N) (arrived N) \<subseteq> authentic ?C ?R" by (rule authentic_mono) auto
  have c: "confined (E i) (authentic ?C ?R) (eng_state e W)" by (rule confined_mono [OF ok(2) mono])
  have "net_step {} W W1" using bundle_new_simps(8) [OF send(3)] by (auto simp: net_step_def)
  from confined_net [OF c this] have s1: "stays (E i) (authentic ?C ?R) (eng_state e W) (eng_state e W1)" by simp
  have b: "b \<in> authentic ?C ?R" using bundle_new_simps(3) [OF send(3)] by (auto simp: authentic_def)
  note r = route_authentic [OF stays_confined [OF s1] b _ send(5)]
  have ar: "arrivals (eng_node_id e) b \<subseteq> ?R" using ok(1) by auto
  show ?thesis unfolding send(1)
    using stays_trans [OF s1 r(1) [OF ar]] r(2) [OF ar]
    by (intro sys_ok_put [OF assms(4) send(2)]) auto
next
  case (deliver i e W a b j c W1 again e' W')
  let ?R = "arrived N \<union> arrivals i c"
  note ok = sys_okD [OF assms(4) deliver(2)]
  obtain f V where f: "node_at N j = (f, V)" by fastforce
  have mono: "authentic (created N) (arrived N) \<subseteq> authentic (created N) ?R" by (rule authentic_mono) auto
  have "b \<in> authentic (created N) (arrived N)"
    using sys_okD(3) [OF assms(4) f] deliver(3) f by (auto simp: image_subset_iff)
  then have c: "c \<in> authentic (created N) ?R"
    using hop_authentic [OF assms(2)] mono unfolding deliver(4) by blast
  from confined_net [OF confined_mono [OF ok(2) mono] deliver(6)]
  have s1: "stays (E i) (authentic (created N) ?R) (eng_state e W) (eng_state e W1)" by simp
  have ar: "arrivals (eng_node_id e) c \<subseteq> ?R" using ok(1) by auto
  note t = take_in_authentic [OF stays_confined [OF s1] c ar deliver(5)]
  have "sys_ok E (put_state i (e', W') (N\<lparr>created := created N, arrived := ?R\<rparr>))"
    using stays_trans [OF s1 t(1)] t(2) by (intro sys_ok_put [OF assms(4) deliver(2)]) auto
  then show ?thesis unfolding deliver(1) by simp
next
  case (retry i e W e' W')
  note ok = sys_okD [OF assms(4) retry(2)]
  note r = retry_stays [OF ok(2) authentic_status assms(3) retry(3)]
  have "sys_ok E (put_state i (e', W') (N\<lparr>created := created N, arrived := arrived N\<rparr>))"
    using r(1) same_config_id [OF r(2)] by (intro sys_ok_put [OF assms(4) retry(2)]) auto
  then show ?thesis unfolding retry(1) by simp
next
  case (drop i e W M W')
  note ok = sys_okD [OF assms(4) drop(2)]
  have "sys_ok E (put_state i (e\<lparr>bundle_manager := M\<rparr>, W') (N\<lparr>created := created N, arrived := arrived N\<rparr>))"
    using drop_stays [OF ok(2) drop(3)] by (intro sys_ok_put [OF assms(4) drop(2)]) auto
  then show ?thesis unfolding drop(1) by simp
qed

lemma sys_run_ok:
  assumes "sys_run query E N N'" and "wire_laws E" and "\<And>is V. net_step {} V (snd (query is V))"
    and "sys_ok E N"
  shows "sys_ok E N'"
  using assms(1,4)
proof induction
  case (next_step N N' N'')
  then show ?case using sys_step_ok [OF next_step(2) assms(2,3)] by blast
qed

end
