(* ===== verification/System_Props.thy ===== *)
theory System_Props
  imports Delivery Engine_Props
begin

text \<open>
  The properties that span components: where the bundles and acknowledgements of a system of
  nodes come from, the invariant of a process under its commands and threads, and what the
  commands promise.
\<close>

section \<open>A system of nodes\<close>

definition fresh_node :: "'v env \<Rightarrow> uuid \<Rightarrow> RoutingEngine \<times> world \<Rightarrow> bool" where
  "fresh_node E i s \<longleftrightarrow> (case s of (e, W) \<Rightarrow>
     eng_node_id e = i \<and> serde_laws E \<and> bm_view E (bundle_manager e, W) = [] \<and> frames W = [])"

lemma fresh_sys_ok: "(\<And>i. fresh_node (E i) i (node_at N i)) \<Longrightarrow> sys_ok E N"
proof -
  assume f: "\<And>i. fresh_node (E i) i (node_at N i)"
  have "case node_at N i of (e, W) \<Rightarrow> eng_node_id e = i \<and>
      confined (E i) (authentic (created N) (arrived N)) (eng_state e W) \<and>
      snd ` set (frames W) \<subseteq> authentic (created N) (arrived N)" for i
    using f [of i] by (auto simp: fresh_node_def confined_def manager_ok_def well_formed_Nil)
  then show ?thesis by (simp add: sys_ok_def)
qed

text \<open>
  C2. End to end: in a system of nodes that start with empty stores, whatever the disks, the
  registry and the network do (any frame a node wrote may reach any node, late, twice or
  never), every data bundle in a store or on the wire is one a user sent, but for time stamp
  and status; and every acknowledgement of \<open>d\<close> is for a bundle \<open>d\<close> a user sent, from its
  destination to its source, and \<open>d\<close> did arrive at its destination.
\<close>

theorem end_to_end_authenticity:
  assumes "sys_run query E N N'" and "\<And>i. fresh_node (E i) i (node_at N i)" and "wire_laws E"
    and "\<And>is V. net_step {} V (snd (query is V))"
    and "node_at N' i = (e, W)" and "y \<in> set (bm_view (E i) (bundle_manager e, W)) \<union> snd ` set (frames W)"
  shows "(is_Data (b_kind y) \<or> is_Ack (b_kind y)) \<and>
    (is_Data (b_kind y) \<longrightarrow> (\<exists>x \<in> created N'. b_id y = b_id x \<and> b_source y = b_source x \<and>
      b_destination y = b_destination x \<and> b_ttl y = b_ttl x \<and> b_kind y = b_kind x)) \<and>
    (b_kind y = Ack d \<longrightarrow> (\<exists>x \<in> created N'. b_id x = d \<and> b_source y = b_destination x \<and>
      b_destination y = b_source x \<and> (n_id (b_destination x), d) \<in> arrived N'))"
proof -
  have "sys_ok E N'" using sys_run_ok [OF assms(1,3,4) fresh_sys_ok [OF assms(2)]] .
  from sys_okD [OF this assms(5)] assms(6) have y: "y \<in> authentic (created N') (arrived N')"
    by (auto simp: confined_def)
  then have g1: "is_Data (b_kind y) \<or> is_Ack (b_kind y)" by (auto simp: authentic_def acknowledges_def)
  have g2: "\<exists>x \<in> created N'. b_id y = b_id x \<and> b_source y = b_source x \<and>
      b_destination y = b_destination x \<and> b_ttl y = b_ttl x \<and> b_kind y = b_kind x" if "is_Data (b_kind y)"
  proof -
    from y that obtain x where "x \<in> created N'" "core y = core x" by (auto simp: authentic_def acknowledges_def)
    with core_eq [of y x] show ?thesis by blast
  qed
  have g3: "\<exists>x \<in> created N'. b_id x = d \<and> b_source y = b_destination x \<and>
      b_destination y = b_source x \<and> (n_id (b_destination x), d) \<in> arrived N'" if "b_kind y = Ack d"
    using y that by (auto simp: authentic_def acknowledges_def)
  from g1 g2 g3 show ?thesis by blast
qed

text \<open>A system in which node 1 sends a message to itself.\<close>

definition two_ids_env :: "string env" where
  "two_ids_env = sample_env\<lparr>new_v4 := (\<lambda>n. if n = 0 then 1 else 2)\<rparr>"

lemma two_ids_laws: "serde_laws two_ids_env" "io_ok two_ids_env"
  "new_v4 two_ids_env n = (if n = 0 then 1 else 2)" "wire_laws (\<lambda>_. two_ids_env)"
  using sample_serde_laws sample_io_ok sample_uuid_laws
  by (simp_all add: two_ids_env_def serde_laws_def io_ok_def wire_laws_def uuid_laws_def)

definition sample_system :: system where
  "sample_system = \<lparr>node_at = (\<lambda>i. (sample_engine\<lparr>eng_node_id := i\<rparr>, sample_world)), created = {}, arrived = {}\<rparr>"

lemma sample_system_fresh: "fresh_node two_ids_env i (node_at sample_system i)"
  using two_ids_laws(1) by (simp add: fresh_node_def sample_system_def) (simp add: sample_world_def)

definition note_to_self :: Bundle where
  "note_to_self = \<lparr>b_id = 1, b_source = sample_node 1 ''alice'', b_destination = sample_node 1 ''alice'',
     b_timestamp = 1001, b_ttl = 60, b_kind = Data ''hello'', b_status = Pending\<rparr>"

lemma note_new:
  "bundle_new two_ids_env (sample_node 1 ''alice'') (sample_node 1 ''alice'') (Data ''hello'') 60 sample_world =
     (note_to_self, tock (tock sample_world))"
  by (simp add: bundle_new_def uuid_new_v4_def utc_now_def two_ids_laws(3) note_to_self_def sample_world_def)
    (simp add: two_ids_env_def sample_env_def)

lemma note_acknowledged:
  "\<exists>e' b' W' a. route_bundle two_ids_env (sample_engine\<lparr>eng_node_id := 1\<rparr>) note_to_self (tock (tock sample_world)) =
     Some (e', b', W') \<and> a \<in> set (bm_view two_ids_env (bundle_manager e', W')) \<and> b_kind a = Ack 1"
proof -
  let ?e = "sample_engine\<lparr>eng_node_id := 1\<rparr>" and ?W = "tock (tock sample_world)"
  have ok0: "manager_ok two_ids_env (eng_state ?e sample_world)" using sample_manager_ok [OF two_ids_laws(1)] by simp
  have v0: "bm_view two_ids_env (eng_state ?e ?W) = []" by (simp add: net_view [OF net_step_tock])
  have ok: "manager_ok two_ids_env (eng_state ?e ?W)" using ok0 net_step_view(2) [OF net_step_tock] by blast
  obtain ps W1 where c: "connected_peers two_ids_env ?e (n_id (b_source note_to_self)) (tock ?W) = (ps, W1)" by fastforce
  note q = after_query [OF ok c]
  obtain e' b' W' where r: "route_delivered two_ids_env ?e note_to_self ps W1 = Some (e', b', W')"
    using route_delivered_total [OF q(1)] by (metis not_None_eq surj_pair)
  have live: "\<not> expired_at two_ids_env (now two_ids_env (tick ?W)) note_to_self"
    by (simp add: expired_at_def sint_u64 note_to_self_def sample_world_def)
      (simp add: two_ids_env_def sample_env_def)
  have k: "\<not> is_Ack (b_kind note_to_self)" "n_id (b_destination note_to_self) = 1" "b_id note_to_self = 1"
    by (simp_all add: note_to_self_def sample_node_def)
  have "route_bundle two_ids_env ?e note_to_self ?W = Some (e', b', W')"
    using r c live k by (simp add: route_bundle_def route_data_def is_expired_eq)
  moreover have "\<exists>a \<in> set (bm_view two_ids_env (eng_state e' W')). acknowledges a note_to_self \<and>
      b_status a \<in> {Pending, InTransit} \<and> b_id a \<notin> b_id ` set (bm_view two_ids_env (eng_state ?e W1))"
  proof (rule route_delivered_acks [OF q(1) two_ids_laws(2) _ _ r])
    show "length (bm_view two_ids_env (eng_state ?e W1)) + 1 < bm_cap (eng_state ?e W1)"
      using q(2) v0 by simp
    show "new_v4 two_ids_env n \<notin> insert (b_id note_to_self) (b_id ` set (bm_view two_ids_env (eng_state ?e W1)))"
      if "tick W1 \<le> n" for n
      using that q(2,4) v0 k(3) by (simp add: two_ids_laws(3))
  qed
  ultimately show ?thesis using k(3) by (auto simp: acknowledges_def)
qed

theorem end_to_end_authenticity_witness:
  "\<exists>N' e W a x. sys_run (\<lambda>is W. ([], W)) (\<lambda>_. two_ids_env) sample_system N' \<and> node_at N' 1 = (e, W) \<and>
     a \<in> set (bm_view two_ids_env (bundle_manager e, W)) \<and> b_kind a = Ack 1 \<and>
     x \<in> created N' \<and> b_id x = 1 \<and> (n_id (b_destination x), 1) \<in> arrived N'"
proof -
  obtain e' b' W' a where r: "route_bundle two_ids_env (sample_engine\<lparr>eng_node_id := 1\<rparr>) note_to_self
      (tock (tock sample_world)) = Some (e', b', W')"
    and a: "a \<in> set (bm_view two_ids_env (bundle_manager e', W'))" and k: "b_kind a = Ack 1"
    using note_acknowledged by blast
  let ?N = "put_state 1 (e', W') (sample_system\<lparr>created := insert note_to_self (created sample_system),
    arrived := arrived sample_system \<union> arrivals 1 note_to_self\<rparr>)"
  have "sys_step (\<lambda>is W. ([], W)) (\<lambda>_. two_ids_env) sample_system ?N"
    by (rule sys_step.send [OF _ note_new _ r]) (simp_all add: sample_system_def sample_node_def)
  with sys_run.start have run: "sys_run (\<lambda>is W. ([], W)) (\<lambda>_. two_ids_env) sample_system ?N"
    by (rule sys_run.next_step)
  have at: "node_at ?N 1 = (e', W')" by (simp add: put_state_def)
  have "\<exists>x \<in> created ?N. b_id x = 1 \<and> b_source a = b_destination x \<and>
      b_destination a = b_source x \<and> (n_id (b_destination x), 1) \<in> arrived ?N"
    by (rule end_to_end_authenticity [OF run sample_system_fresh two_ids_laws(4) _ at,
          THEN conjunct2, THEN conjunct2, rule_format, OF _ _ k]) (simp_all add: a)
  with run at a k show ?thesis by blast
qed

section \<open>A process\<close>

lemma engine_new_total:
  assumes "\<And>n. io_mkdir E n"
  shows "engine_new E i peers name W \<noteq> None"
  using assms by (auto simp: engine_new_def bm_new_def storage_new_def fs_create_dir_all_def Let_def split: prod.splits)

lemma node_new_total:
  assumes "\<And>n. io_mkdir E n" and "node_id E name = Some i"
  obtains n W' where "node_new E name address port peers W = Some (n, W')" and "n_id n = i"
proof -
  obtain e W' where "engine_new E i peers name W = Some (e, W')"
    using engine_new_total [OF assms(1)] by (metis not_None_eq surj_pair)
  with assms(2) that show thesis by (auto simp: node_new_def)
qed

text \<open>The program starts: the four nodes of the demo, under their names.\<close>

lemma initial_nodes_total:
  assumes "\<And>n. io_mkdir E n" and "uuid_parse_str E namespace_text = Some ns"
  obtains alice bob carol syrine W' where "initial_nodes E W = Some ([alice, bob, carol, syrine], W')"
    and "n_name alice = ''alice''" "n_name bob = ''bob''" "n_name carol = ''carol''" "n_name syrine = ''syrine''"
    and "n_id alice = new_v5 E ns ''alice''" "n_id bob = new_v5 E ns ''bob''"
proof -
  have i: "node_id E name = Some (new_v5 E ns name)" for name by (simp add: node_id_def assms(2))
  note t = node_new_total [OF assms(1) i]
  obtain a W1 where a: "node_new E ''alice'' ''127.0.0.1'' 9001 [new_v5 E ns ''bob''] W = Some (a, W1)"
    "n_id a = new_v5 E ns ''alice''" by (rule t)
  obtain b W2 where b: "node_new E ''bob'' ''127.0.0.1'' 9002 [new_v5 E ns ''carol''] W1 = Some (b, W2)"
    "n_id b = new_v5 E ns ''bob''" by (rule t)
  obtain c W3 where c: "node_new E ''carol'' ''127.0.0.1'' 9003 [new_v5 E ns ''syrine''] W2 = Some (c, W3)" by (rule t)
  obtain d W4 where d: "node_new E ''syrine'' ''127.0.0.1'' 9004 [] W3 = Some (d, W4)" by (rule t)
  have "initial_nodes E W = Some ([a, b, c, d], W4)" by (simp add: initial_nodes_def i a(1) b(1) c(1) d(1))
  with that node_new_result(1) [OF a(1)] node_new_result(1) [OF b(1)] node_new_result(1) [OF c(1)]
    node_new_result(1) [OF d(1)] a(2) b(2) show thesis by blast
qed

lemma threads_run:
  assumes "app_run query E s s'" and "threads_ok (fst s)"
  shows "threads_ok (fst s')"
  using assms
proof induction
  case (next_step s s' s'')
  then show ?case using app_step_threads [of query E "fst s'" "snd s'" "fst s''" "snd s''"] by simp
qed

text \<open>
  C3. The process invariant: started on a disk without files, after any sequence of commands,
  connections and retry rounds, with any failures of disk and network, every node's bundles
  file holds at most 100 bundles with distinct identifiers, every engine of a node works on
  the file of that node under its identifier, and there is one listener per port and one retry
  thread per node.
\<close>

theorem process_invariant:
  assumes "initial_nodes E W = Some (nodes, W0)" and "serde_laws E" and "\<And>p. disk W p = None"
    and "\<And>is V. net_step {} V (snd (query is V))" and "app_run query E (initial_app nodes, W0) (A, W')"
  shows "(n \<in> set (app_nodes A) \<longrightarrow> length (disk_bundles E (node_dir E (n_name n)) W') \<le> 100 \<and>
      distinct (map b_id (disk_bundles E (node_dir E (n_name n)) W'))) \<and>
    (n \<in> set (app_nodes A) \<longrightarrow> routing_engine n = Some e \<longrightarrow> eng_node_id e = n_id n \<and>
      storage_dir (bm_storage (bundle_manager e)) = node_dir E (n_name n)) \<and>
    distinct (map fst (listeners A)) \<and>
    distinct (map fst (retriers A))"
proof -
  have "app_ok E (initial_app nodes, W0)" using initial_app_ok [OF assms(1) empty_files_ok [OF assms(2,3)]] .
  from app_run_ok [OF assms(5,4) this] have ok: "app_ok E (A, W')" .
  have g1: "n \<in> set (app_nodes A) \<Longrightarrow> length (disk_bundles E (node_dir E (n_name n)) W') \<le> 100 \<and>
      distinct (map b_id (disk_bundles E (node_dir E (n_name n)) W'))"
    using app_okD(1) [OF ok] by (simp add: files_ok_def well_formed_def)
  have g2: "n \<in> set (app_nodes A) \<Longrightarrow> routing_engine n = Some e \<Longrightarrow> eng_node_id e = n_id n \<and>
      storage_dir (bm_storage (bundle_manager e)) = node_dir E (n_name n)"
    using app_okD(2) [OF ok] by (simp add: engine_of_def)
  have "threads_ok (initial_app nodes)" by (simp add: threads_ok_def initial_app_def)
  with threads_run [OF assms(5)] have "threads_ok A" by simp
  then have g3: "distinct (map fst (listeners A)) \<and> distinct (map fst (retriers A))" by (simp add: threads_ok_def)
  from g1 g2 g3 show ?thesis by blast
qed

lemma sample_start:
  obtains alice bob carol syrine W0 where "initial_nodes sample_env sample_world = Some ([alice, bob, carol, syrine], W0)"
    and "n_name alice = ''alice''" "n_name bob = ''bob''" "n_name carol = ''carol''" "n_name syrine = ''syrine''"
    and "n_id alice = 5" "n_id bob = 3"
proof -
  have m: "io_mkdir sample_env n" for n by (simp add: sample_env_def)
  have u: "uuid_parse_str sample_env namespace_text = Some 0x6ba7b8109dad11d180b400c04fd430c8"
    by (simp add: sample_env_def sample_parse_uuid_def)
  obtain alice bob carol syrine W0 where i: "initial_nodes sample_env sample_world = Some ([alice, bob, carol, syrine], W0)"
    "n_name alice = ''alice''" "n_name bob = ''bob''" "n_name carol = ''carol''" "n_name syrine = ''syrine''"
    "n_id alice = new_v5 sample_env 0x6ba7b8109dad11d180b400c04fd430c8 ''alice''"
    "n_id bob = new_v5 sample_env 0x6ba7b8109dad11d180b400c04fd430c8 ''bob''"
    by (rule initial_nodes_total [OF m u])
  have "n_id alice = 5" "n_id bob = 3" using i(6,7) by (simp_all add: sample_env_def)
  then show thesis using that i(1-5) by blast
qed

text \<open>Starting a node with a registry that accepts the connection.\<close>

lemma sample_registers: "\<exists>S W'. connect_to_server sample_env n server W = (Some S, W')"
proof -
  have w: "tcp_write sample_env m = None" "request_to_vec sample_env r = Some []" for m r
    by (simp_all add: sample_env_def)
  show ?thesis
    by (simp add: connect_to_server_def net_ok_connect [OF sample_net_ok] stream_write_all_def stream_read_def Let_def w)
qed

theorem process_invariant_witness:
  "\<exists>nodes W0 A W'. initial_nodes sample_env sample_world = Some (nodes, W0) \<and>
     app_run (\<lambda>is W. ([], W)) sample_env (initial_app nodes, W0) (A, W') \<and>
     listeners A \<noteq> [] \<and> retriers A \<noteq> [] \<and> distinct (map fst (listeners A))"
proof -
  obtain alice bob carol syrine W0 where i: "initial_nodes sample_env sample_world = Some ([alice, bob, carol, syrine], W0)"
    and n: "n_name alice = ''alice''" by (rule sample_start)
  let ?A = "initial_app [alice, bob, carol, syrine]"
  obtain e where e: "routing_engine alice = Some e" using initial_nodes_result(3) [OF i, of alice] by auto
  have f: "find_node (app_nodes ?A) ''alice'' = Some alice" using n by (simp add: find_node_def initial_app_def)
  obtain S W1 where "connect_to_server sample_env (Node.truncate alice) ''r:1'' W0 = (Some S, W1)"
    using sample_registers by blast
  with f e obtain out A where h: "handle_command sample_env (Start ''alice'' ''r:1'') ?A W0 = Some (out, A, W1)"
    and l: "listeners A \<noteq> []" "retriers A \<noteq> []"
    by (simp add: cmd_start_def ensure_engine_def Let_def) (simp add: initial_app_def)
  from app_step.command [OF h] have r: "app_run (\<lambda>is W. ([], W)) sample_env (?A, W0) (A, W1)"
    using app_run.next_step [OF app_run.start] by blast
  have d: "disk sample_world p = None" for p by (simp add: sample_world_def)
  from process_invariant [OF i sample_serde_laws d _ r, THEN conjunct2, THEN conjunct2, THEN conjunct1]
  have "distinct (map fst (listeners A))" by simp
  with i r l show ?thesis by blast
qed

section \<open>The commands\<close>

text \<open>
  C10. \<open>send\<close> to another node keeps its promise on a working disk: when the command returns,
  the message is in the bundles file of the sender, pending or in transit, provided it has not
  expired by then, its random identifier is neither stored nor acknowledged there, and the file
  holds fewer than 100 bundles. Neither a full network failure nor a missing peer loses it.
\<close>

theorem send_keeps_the_message:
  assumes "app_ok E (A, W)" and "io_ok E" and "find_node (app_nodes A) from = Some n"
    and "find_node (app_nodes A) to = Some d" and "routing_engine n = Some e" and "n_id n \<noteq> n_id d"
    and "bundle_new E (Node.truncate n) (Node.truncate d) (Data message) ttl W = (b, W1)"
    and "\<not> fst (is_expired E b W1)"
    and "length (disk_bundles E (node_dir E from) W) < 100"
    and "\<not> has_id (disk_bundles E (node_dir E from) W) (b_id b)"
    and "\<not> has_ack (disk_bundles E (node_dir E from) W) (b_id b)"
  shows "\<exists>A' W' st. handle_command E (Send from to message ttl) A W = Some ([], A', W') \<and>
    b\<lparr>b_status := st\<rparr> \<in> set (disk_bundles E (node_dir E from) W') \<and> st \<in> {Pending, InTransit}"
  using cmd_send_stores [OF assms(1-7) _ assms(9-11)] assms(8) by (simp add: is_expired_eq)

lemma sample_files: "disk_bundles sample_env dir sample_world = []"
  by (simp add: disk_bundles_def sample_world_def)

theorem send_keeps_the_message_witness:
  "\<exists>A W A' W' b. handle_command sample_env (Send ''alice'' ''bob'' ''hello'' 60) A W = Some ([], A', W') \<and>
     b \<in> set (disk_bundles sample_env (node_dir sample_env ''alice'') W') \<and> b_kind b = Data ''hello''"
proof -
  obtain alice bob carol syrine W0 where i: "initial_nodes sample_env sample_world = Some ([alice, bob, carol, syrine], W0)"
    and n: "n_name alice = ''alice''" "n_name bob = ''bob''" and ids: "n_id alice = 5" "n_id bob = 3"
    by (rule sample_start)
  let ?A = "initial_app [alice, bob, carol, syrine]"
  have "files_ok sample_env {''alice'', ''bob'', ''carol'', ''syrine''} sample_world"
    by (rule empty_files_ok [OF sample_serde_laws]) (simp add: sample_world_def)
  from initial_app_ok [OF i this] have ok: "app_ok sample_env (?A, W0)" .
  have f: "find_node (app_nodes ?A) ''alice'' = Some alice" "find_node (app_nodes ?A) ''bob'' = Some bob"
    using n by (simp_all add: find_node_def initial_app_def)
  obtain e where e: "routing_engine alice = Some e" using initial_nodes_result(3) [OF i, of alice] by auto
  have ne: "n_id alice \<noteq> n_id bob" by (simp add: ids)
  obtain b W1 where b: "bundle_new sample_env (Node.truncate alice) (Node.truncate bob) (Data ''hello'') 60 W0 = (b, W1)"
    by fastforce
  note bs = bundle_new_simps [OF b]
  have live: "\<not> fst (is_expired sample_env b W1)"
    by (simp add: is_expired_eq expired_at_def sint_u64 bs) (simp add: sample_env_def)
  have d: "disk_bundles sample_env (node_dir sample_env ''alice'') W0 = []"
    using initial_nodes_result(2) [OF i] by (simp add: disk_bundles_def sample_world_def)
  have "\<exists>A' W' st. handle_command sample_env (Send ''alice'' ''bob'' ''hello'' 60) ?A W0 = Some ([], A', W') \<and>
    b\<lparr>b_status := st\<rparr> \<in> set (disk_bundles sample_env (node_dir sample_env ''alice'') W') \<and> st \<in> {Pending, InTransit}"
    by (rule send_keeps_the_message [OF ok sample_io_ok f e ne b live]) (simp_all add: d has_id_def has_ack_def)
  then obtain A' W' st where "handle_command sample_env (Send ''alice'' ''bob'' ''hello'' 60) ?A W0 = Some ([], A', W')"
    "b\<lparr>b_status := st\<rparr> \<in> set (disk_bundles sample_env (node_dir sample_env ''alice'') W')" by blast
  moreover have "b_kind (b\<lparr>b_status := st\<rparr>) = Data ''hello''" by (simp add: bs)
  ultimately show ?thesis by blast
qed

text \<open>
  C35. The time to live is cast to a signed number before it is compared: with a time to live
  of \<open>2 ^ 63\<close> seconds or more, and a clock that does not run backwards, \<open>send\<close> drops the
  message at once. The store gains nothing and nothing is sent, though the command succeeds.
\<close>

theorem huge_time_to_live_loses_the_message:
  assumes "app_ok E (A, W)" and "io_ok E" and "2 ^ 63 \<le> uint ttl"
    and "handle_command E (Send from to message ttl) A W = Some (out, A', W')"
    and "\<And>m n. m \<le> n \<Longrightarrow> 0 \<le> age_seconds E (now E n) (now E m)"
    and "\<And>n. find_node (app_nodes A) from = Some n \<Longrightarrow> routing_engine n \<noteq> None"
  shows "set (disk_bundles E (node_dir E from) W') \<subseteq> set (disk_bundles E (node_dir E from) W) \<and>
    (frames W' = frames W)"
proof -
  have s: "cmd_send E from to message ttl A W = Some (out, A', W')" using assms(4) by simp
  note x = cmd_send_huge_ttl [OF assms(1,2) s assms(3,5,6)]
  have g1: "set (disk_bundles E (node_dir E from) W') \<subseteq> set (disk_bundles E (node_dir E from) W)"
    using x(1) by (auto simp: remove_id_def)
  have g2: "frames W' = frames W" by (rule x(2))
  from g1 g2 show ?thesis by blast
qed

theorem huge_time_to_live_loses_the_message_witness:
  "\<exists>A W out A' W'. handle_command sample_env (Send ''alice'' ''bob'' ''hello'' (2 ^ 63)) A W = Some (out, A', W') \<and>
     disk_bundles sample_env (node_dir sample_env ''alice'') W' = []"
proof -
  obtain alice bob carol syrine W0 where i: "initial_nodes sample_env sample_world = Some ([alice, bob, carol, syrine], W0)"
    and n: "n_name alice = ''alice''" "n_name bob = ''bob''" by (rule sample_start)
  let ?A = "initial_app [alice, bob, carol, syrine]"
  have "files_ok sample_env {''alice'', ''bob'', ''carol'', ''syrine''} sample_world"
    by (rule empty_files_ok [OF sample_serde_laws]) (simp add: sample_world_def)
  from initial_app_ok [OF i this] have ok: "app_ok sample_env (?A, W0)" .
  have engines: "routing_engine x \<noteq> None" if "x \<in> set (app_nodes ?A)" for x
    using that initial_nodes_result(3) [OF i, of x] by (auto simp: initial_app_def)
  have "handle_command sample_env (Send ''alice'' ''bob'' ''hello'' (2 ^ 63)) ?A W0 \<noteq> None"
    by (rule handle_command_total [OF ok engines]) (use n in \<open>auto simp: find_node_def initial_app_def\<close>)
  then obtain out A' W' where
    h: "handle_command sample_env (Send ''alice'' ''bob'' ''hello'' (2 ^ 63)) ?A W0 = Some (out, A', W')"
    by (metis not_None_eq surj_pair)
  have c: "0 \<le> age_seconds sample_env (now sample_env n) (now sample_env m)" if "m \<le> n" for m n
    using that by (simp add: sample_env_def)
  have f: "routing_engine x \<noteq> None" if "find_node (app_nodes ?A) ''alice'' = Some x" for x
    using engines find_nodeD [OF that] by blast
  have t: "2 ^ 63 \<le> uint (2 ^ 63 :: u64)" by simp
  have d: "disk_bundles sample_env (node_dir sample_env ''alice'') W0 = []"
    using initial_nodes_result(2) [OF i] by (simp add: disk_bundles_def sample_world_def)
  from huge_time_to_live_loses_the_message [OF ok sample_io_ok t h c f, THEN conjunct1]
  have "disk_bundles sample_env (node_dir sample_env ''alice'') W' = []" by (simp add: d)
  with h show ?thesis by blast
qed

text \<open>
  C38. A command ends the process (by \<open>exit(1)\<close> or a panic) only if it names a node that does
  not exist, or a text given for an identifier is none: with the names known and the texts
  well formed every command returns, whatever the disks, peers and the registry do.
\<close>

theorem commands_return:
  assumes "app_ok E (A, W)" and "\<And>n. n \<in> set (app_nodes A) \<Longrightarrow> routing_engine n \<noteq> None"
    and "\<And>name. name \<in> set (command_names c) \<Longrightarrow> find_node (app_nodes A) name \<noteq> None"
    and "\<And>s. s \<in> set (command_texts c) \<Longrightarrow> uuid_parse_str E s \<noteq> None"
  shows "\<exists>out A' W'. handle_command E c A W = Some (out, A', W')"
  using handle_command_total [OF assms] by (metis not_None_eq surj_pair)

theorem commands_return_witness:
  "\<exists>A W out A' W'. handle_command sample_env (Start ''alice'' ''r:1'') A W = Some (out, A', W')"
proof -
  obtain alice bob carol syrine W0 where i: "initial_nodes sample_env sample_world = Some ([alice, bob, carol, syrine], W0)"
    and n: "n_name alice = ''alice''" by (rule sample_start)
  let ?A = "initial_app [alice, bob, carol, syrine]"
  have "files_ok sample_env {''alice'', ''bob'', ''carol'', ''syrine''} sample_world"
    by (rule empty_files_ok [OF sample_serde_laws]) (simp add: sample_world_def)
  from initial_app_ok [OF i this] have ok: "app_ok sample_env (?A, W0)" .
  have "\<exists>out A' W'. handle_command sample_env (Start ''alice'' ''r:1'') ?A W0 = Some (out, A', W')"
  proof (rule commands_return [OF ok])
    show "routing_engine x \<noteq> None" if "x \<in> set (app_nodes ?A)" for x
      using that initial_nodes_result(3) [OF i, of x] by (auto simp: initial_app_def)
  qed (use n in \<open>simp_all add: find_node_def initial_app_def\<close>)
  then show ?thesis by blast
qed

text \<open>
  C39. \<open>peers <name> add <peer>\<close> reaches the node and its own engine, and none of the running
  threads: the engines the listener and retry threads own keep the peers they were started
  with, also if the node is started again.
\<close>

theorem peers_add_does_not_reach_threads:
  assumes "find_node (app_nodes A) name = Some n" and "known_nodes (app_nodes A) peer = Some i"
    and "i \<notin> set (n_peers n)" and "handle_command E (PeersCmd name (AddPeer peer)) A W = Some (out, A', W')"
  shows "(\<exists>n'. find_node (app_nodes A') name = Some n' \<and> n_peers n' = n_peers n @ [i] \<and>
      (\<forall>e. routing_engine n = Some e \<longrightarrow> routing_engine n' = Some (e\<lparr>eng_peers := n_peers n @ [i]\<rparr>))) \<and>
    (listeners A' = listeners A) \<and>
    (retriers A' = retriers A) \<and>
    (W' = W) \<and>
    (n_port n \<in> listening_ports A \<longrightarrow> n_id n \<in> retrying_nodes A \<longrightarrow>
      handle_command E (Start name server) A' V = Some (out2, A2, V') \<longrightarrow>
      listeners A2 = listeners A \<and> retriers A2 = retriers A)"
proof -
  let ?n = "sync_node_engine_peers (n\<lparr>n_peers := n_peers n @ [i]\<rparr>)"
  have A': "A' = A\<lparr>app_nodes := put_node_at name ?n (app_nodes A)\<rparr>" and w: "W' = W"
    using assms by (auto simp: cmd_peers_def handle_peer_command_def)
  have name: "n_name n = name" using find_nodeD [OF assms(1)] by blast
  have f: "find_node (app_nodes A') name = Some ?n"
    using assms(1) name find_put_same [of "app_nodes A" name n ?n] by (simp add: A')
  have g1: "\<exists>n'. find_node (app_nodes A') name = Some n' \<and> n_peers n' = n_peers n @ [i] \<and>
      (\<forall>e. routing_engine n = Some e \<longrightarrow> routing_engine n' = Some (e\<lparr>eng_peers := n_peers n @ [i]\<rparr>))"
    using f by (intro exI [of _ ?n]) (simp add: sync_engine)
  have g2: "listeners A' = listeners A \<and> retriers A' = retriers A \<and> W' = W" by (simp add: A' w)
  have p: "n_port ?n = n_port n" "n_id ?n = n_id n" by (simp_all add: sync_node_engine_peers_def split: option.splits)
  have g3: "listeners A2 = listeners A \<and> retriers A2 = retriers A"
    if t: "n_port n \<in> listening_ports A" "n_id n \<in> retrying_nodes A"
      and s: "handle_command E (Start name server) A' V = Some (out2, A2, V')"
    using s f t p by (auto simp: cmd_start_def A' Let_def bind_eq_Some_conv split: prod.splits option.splits)
  from g1 g2 g3 show ?thesis by blast
qed

definition two_nodes_app :: app where
  "two_nodes_app = \<lparr>app_nodes =
       [\<lparr>n_id = 1, n_name = ''alice'', n_address = ''a'', n_port = 9001, n_peers = [], routing_engine = Some sample_engine\<rparr>,
        \<lparr>n_id = 2, n_name = ''bob'', n_address = ''b'', n_port = 9002, n_peers = [], routing_engine = None\<rparr>],
     registry_streams = (\<lambda>_. None), listening_ports = {9001}, retrying_nodes = {1},
     listeners = [(9001, sample_engine)], retriers = [(1, sample_engine)]\<rparr>"

theorem peers_add_does_not_reach_threads_witness:
  "\<exists>out A' W'. handle_command sample_env (PeersCmd ''alice'' (AddPeer ''bob'')) two_nodes_app sample_world =
       Some (out, A', W') \<and>
     (\<exists>n. find_node (app_nodes A') ''alice'' = Some n \<and> n_peers n = [2]) \<and>
     listeners A' = [(9001, sample_engine)] \<and> eng_peers sample_engine = []"
proof -
  let ?alice = "\<lparr>n_id = 1, n_name = ''alice'', n_address = ''a'', n_port = 9001, n_peers = [],
    routing_engine = Some sample_engine\<rparr> :: AppNode"
  have f: "find_node (app_nodes two_nodes_app) ''alice'' = Some ?alice"
    by (simp add: find_node_def two_nodes_app_def)
  have k: "known_nodes (app_nodes two_nodes_app) ''bob'' = Some 2"
    by (simp add: known_nodes_def two_nodes_app_def)
  have i: "2 \<notin> set (n_peers ?alice)" by simp
  obtain out A' W' where h: "handle_command sample_env (PeersCmd ''alice'' (AddPeer ''bob'')) two_nodes_app sample_world =
      Some (out, A', W')"
    using f k by (simp add: cmd_peers_def handle_peer_command_def)
  note p0 = peers_add_does_not_reach_threads [OF f k i h]
  note p = p0 [THEN conjunct1] p0 [THEN conjunct2, THEN conjunct1]
  have "listeners A' = [(9001, sample_engine)]" using p(2) by (simp add: two_nodes_app_def)
  moreover have "eng_peers sample_engine = []" by (simp add: sample_engine_def)
  ultimately show ?thesis using h p(1) by auto
qed

section \<open>The interactive mode\<close>

text \<open>
  C40. The interactive loop is left by a line \<open>exit\<close> or \<open>quit\<close>, in any case and between any
  blanks, and by nothing else. At the end of the input, where \<open>read_line\<close> gives empty lines
  for ever, it goes on for ever.
\<close>

theorem interactive_left_by_exit_only:
  "(interactive E clap lines A W = Some (left, out, A', W') \<longrightarrow>
      left \<longleftrightarrow> (\<exists>line. Some line \<in> set lines \<and>
        (eq_ignore_case (trim line) ''exit'' \<or> eq_ignore_case (trim line) ''quit''))) \<and>
    (interactive E clap (replicate k (Some [])) A W = Some (False, [], A, W))"
proof -
  have g1: "interactive E clap lines A W = Some (left, out, A', W') \<Longrightarrow>
      left \<longleftrightarrow> (\<exists>line. Some line \<in> set lines \<and>
        (eq_ignore_case (trim line) ''exit'' \<or> eq_ignore_case (trim line) ''quit''))"
    by (rule interactive_left_iff)
  have g2: "interactive E clap (replicate k (Some [])) A W = Some (False, [], A, W)" by (rule interactive_empty)
  from g1 g2 show ?thesis by blast
qed

theorem interactive_left_by_exit_only_witness:
  "\<exists>left out A W A' W'. interactive sample_env (\<lambda>_. None) [Some '' all '', None, Some ''QUIT''] A W =
     Some (left, out, A', W') \<and> left"
proof -
  have t: "trim '' all '' = ''all''" "trim ''QUIT'' = ''QUIT''" by code_simp+
  have q: "\<not> eq_ignore_case ''all'' ''exit''" "\<not> eq_ignore_case ''all'' ''quit''" "\<not> eq_ignore_case ''all'' ''help''"
    "eq_ignore_case ''QUIT'' ''quit''" by code_simp+
  have r: "interactive sample_env (\<lambda>_. None) [Some '' all '', None, Some ''QUIT''] two_nodes_app sample_world =
      Some (True, [''Bye.''], two_nodes_app, sample_world)"
    by (simp add: t q)
  from interactive_left_by_exit_only [THEN conjunct1, rule_format, OF r] r show ?thesis by blast
qed

end
