(* ===== verification/Multi_Hop.thy ===== *)
theory Multi_Hop
  imports Delivery Engine_Props
begin

text \<open>
  Store, carry and forward over several hops: a message reaches its destination along any
  path of nodes of which each has the next one among its connected peers, if the network
  delivers the frames on the path to the nodes they are addressed to.
\<close>

section \<open>Relaying\<close>

text \<open>
  A frame reaches the node it is addressed to, and the node stays on the connection; \<open>place\<close> gives the socket a node listens on.
\<close>

inductive relay :: "(uuid \<Rightarrow> string) \<Rightarrow> (uuid \<Rightarrow> 'v env) \<Rightarrow> system \<Rightarrow> system \<Rightarrow> bool"
    for place :: "uuid \<Rightarrow> string" and E :: "uuid \<Rightarrow> 'v env" where
  hand_over: "node_at N i = (e, W) \<Longrightarrow> (place i, b) \<in> set (frames (snd (node_at N j))) \<Longrightarrow>
    c = hop (E i) (E j) b \<Longrightarrow> take_in (E i) e c W = Some (True, e', W') \<Longrightarrow>
    relay place E N (put_state i (e', W') (N\<lparr>arrived := arrived N \<union> arrivals i c\<rparr>))"

lemma relay_step: "relay place E N N' \<Longrightarrow> sys_step query E N N'"
  by (induction rule: relay.induct) (rule sys_step.deliver [OF _ _ _ _ net_step_refl])

lemma relays_run: "(relay place E)\<^sup>*\<^sup>* N N' \<Longrightarrow> sys_run query E M N \<Longrightarrow> sys_run query E M N'"
  by (induction rule: rtranclp_induct) (auto intro: sys_run.next_step relay_step)

text \<open>The time stamps the wire may give a bundle on its way.\<close>

inductive_set stamps :: "(uuid \<Rightarrow> 'v env) \<Rightarrow> Bundle \<Rightarrow> datetime set"
  for E :: "uuid \<Rightarrow> 'v env" and b :: Bundle where
  origin: "b_timestamp b \<in> stamps E b"
| hopped: "t \<in> stamps E b \<Longrightarrow> datetime_or_default (E i) (timestamp_seconds (E j) t) \<in> stamps E b"

definition on_the_way :: "(uuid \<Rightarrow> 'v env) \<Rightarrow> Bundle \<Rightarrow> Bundle set" where
  "on_the_way E b = {b\<lparr>b_timestamp := t, b_status := Pending\<rparr> | t. t \<in> stamps E b}"

lemma on_the_wayD:
  assumes "c \<in> on_the_way E b"
  shows "b_id c = b_id b" "b_source c = b_source b" "b_destination c = b_destination b" "b_kind c = b_kind b"
    "b_status c = Pending"
  using assms by (auto simp: on_the_way_def)

lemma hop_on_the_way:
  assumes "wire_laws E" and "carriable b" and "c \<in> on_the_way E b"
  shows "hop (E i) (E j) c \<in> on_the_way E b"
proof -
  have "carriable c" using assms(2) on_the_wayD(4) [OF assms(3)] by (simp add: carriable_def)
  from hop_eq [OF assms(1) this, of i j] show ?thesis
    using assms(3) by (auto simp: on_the_way_def intro: stamps.hopped)
qed

section \<open>A node on the path\<close>

text \<open>
  The node works, has room, does not know the bundle, and when it takes the bundle in, which
  it does within two more calls of the environment, it can build a runtime and the bundle has
  not expired.
\<close>

definition can_take :: "(uuid \<Rightarrow> 'v env) \<Rightarrow> Bundle \<Rightarrow> system \<Rightarrow> uuid \<Rightarrow> bool" where
  "can_take E b N i \<longleftrightarrow> (case node_at N i of (e, W) \<Rightarrow>
     eng_node_id e = i \<and> io_ok (E i) \<and> net_ok (E i) \<and> manager_ok (E i) (bundle_manager e, W) \<and>
     length (bm_view (E i) (bundle_manager e, W)) + 1 < bm_cap (bundle_manager e, W) \<and>
     \<not> has_id (bm_view (E i) (bundle_manager e, W)) (b_id b) \<and>
     \<not> has_ack (bm_view (E i) (bundle_manager e, W)) (b_id b) \<and>
     (\<forall>n \<le> tick W + 2. runtime_build (E i) n) \<and>
     (\<forall>n \<le> tick W + 2. \<forall>c \<in> on_the_way E b. \<not> expired_at (E i) (now (E i) n) c))"

text \<open>
  Whenever asked, the registry reports the peer at the address as connected, and the peer's
  summary vector does not name the bundle.
\<close>

definition meets :: "'v env \<Rightarrow> RoutingEngine \<Rightarrow> Bundle \<Rightarrow> string \<Rightarrow> bool" where
  "meets F e b a \<longleftrightarrow> (\<forall>V. \<exists>p \<in> set (fst (connected_peers F e (n_id (b_source b)) V)). peer_socket p = a \<and>
     (\<forall>V'. b_id b \<notin> set (fst (get_peer_summary_vector F e (n_address (p_node p)) (n_port (p_node p)) V'))))"

fun linked :: "(uuid \<Rightarrow> string) \<Rightarrow> (uuid \<Rightarrow> 'v env) \<Rightarrow> Bundle \<Rightarrow> system \<Rightarrow> uuid list \<Rightarrow> bool" where
  "linked place E b N (i # j # path) \<longleftrightarrow>
     meets (E i) (fst (node_at N i)) b (place j) \<and> linked place E b N (j # path)"
| "linked place E b N path \<longleftrightarrow> True"

lemma meets_manager [simp]: "meets F (e\<lparr>bundle_manager := M\<rparr>) b a = meets F e b a"
  by (simp add: meets_def connected_peers_def get_peer_summary_vector_def)

lemma meets_cong: "b_id c = b_id b \<Longrightarrow> b_source c = b_source b \<Longrightarrow> meets F e c a = meets F e b a"
  by (simp add: meets_def)

lemma linked_put: "i \<notin> set path \<Longrightarrow> linked place E b (put_state i s N) path = linked place E b N path"
  by (induction path rule: induct_list012) (auto simp: put_state_def)

lemma linked_history [simp]: "linked place E b (N\<lparr>arrived := R\<rparr>) path = linked place E b N path"
  "linked place E b (N\<lparr>created := C\<rparr>) path = linked place E b N path"
  by (induction path rule: induct_list012) simp_all

lemma can_take_put: "i \<noteq> j \<Longrightarrow> can_take E b (put_state i s N) j = can_take E b N j"
  by (simp add: can_take_def put_state_def)

lemma can_take_history [simp]: "can_take E b (N\<lparr>arrived := R\<rparr>) j = can_take E b N j"
  "can_take E b (N\<lparr>created := C\<rparr>) j = can_take E b N j"
  by (simp_all add: can_take_def)

text \<open>Routing the bundle at a node that is not its destination hands it to the next one.\<close>

lemma route_hands_on:
  assumes "manager_ok F (eng_state e W)" and "io_ok F" and "net_ok F"
    and "length (bm_view F (eng_state e W)) < bm_cap (eng_state e W)"
    and "\<not> has_id (bm_view F (eng_state e W)) (b_id c)" and "\<not> has_ack (bm_view F (eng_state e W)) (b_id c)"
    and "is_Data (b_kind c)" and "b_status c = Pending" and "eng_node_id e \<noteq> n_id (b_destination c)"
    and "\<not> expired_at F (now F (tick W)) c" and "meets F e c a"
  shows "\<exists>e' b' W'. route_bundle F e c W = Some (e', b', W') \<and> (a, c) \<in> set (frames W')"
proof -
  obtain ps W1 where q: "connected_peers F e (n_id (b_source c)) (tock W) = (ps, W1)" by fastforce
  note k = after_query [OF assms(1) q]
  obtain p where p: "p \<in> set ps" "peer_socket p = a"
    and n: "b_id c \<notin> set (fst (get_peer_summary_vector F e (n_address (p_node p)) (n_port (p_node p)) V'))" for V'
    using assms(11) q unfolding meets_def by (metis fst_conv)
  have d: "\<not> is_Ack (b_kind c)" using assms(7) by (cases "b_kind c") auto
  obtain e' b' W' where r: "route_onward F e c ps W1 = Some (e', b', W')"
    using route_onward_total [OF k(1)] by (metis not_None_eq surj_pair)
  have "route_bundle F e c W = Some (e', b', W')"
    using r q d assms(9,10) by (simp add: route_bundle_def route_data_def is_expired_eq)
  moreover have "(a, c) \<in> set (frames W')"
    using route_onward_reaches [OF k(1) assms(2,3) _ _ _ assms(8) r p(1)] assms(4-6) n p(2) k(2,3)
      new_frames_subset by (auto simp: named_by_def)
  ultimately show ?thesis by blast
qed

text \<open>Taking in a bundle that is not known is routing it, on the same store.\<close>

lemma has_bundle_tick: "bm_has_bundle E i (M, W) = (r, (M', W')) \<Longrightarrow> tick W' \<le> Suc (tick W)"
  by (auto simp: bm_has_bundle_def bm_get_def on_storage_def get_bundle_def refresh_from_disk_def
      load_bundles_from_file_def fs_read_to_string_def Let_def split: prod.splits if_splits option.splits)

lemma take_in_routes:
  assumes "manager_ok F (eng_state e W)" and "io_ok F" and "\<not> has_id (bm_view F (eng_state e W)) (b_id c)"
    and "\<And>n. n \<le> tick W + 2 \<Longrightarrow> runtime_build F n"
  obtains M V where "take_in F e c W = map_option (\<lambda>(e, _, W). (True, e, W)) (route_bundle F (e\<lparr>bundle_manager := M\<rparr>) c V)"
    and "manager_ok F (M, V)" and "bm_view F (M, V) = bm_view F (eng_state e W)"
    and "bm_cap (M, V) = bm_cap (eng_state e W)" and "tick W \<le> tick V" and "tick V \<le> tick W + 2"
proof -
  obtain known M W2 where k: "bm_has_bundle F (b_id c) (eng_state e W) = (known, (M, W2))" by (metis surj_pair)
  note x = has_bundle_exact [OF manager_okD(1) [OF assms(1)] assms(2) k]
  have ok: "manager_ok F (M, tock W2)"
    using has_bundle_ok [OF assms(1) k] net_step_view(2) [OF net_step_tock] by blast
  have v: "bm_view F (M, tock W2) = bm_view F (eng_state e W)" using x(2) by (simp add: net_view [OF net_step_tock])
  have t: "take_in F e c W = map_option (\<lambda>(e, _, W). (True, e, W)) (route_bundle F (e\<lparr>bundle_manager := M\<rparr>) c (tock W2))"
    using k x(1) assms(3) assms(4) [of "tick W2"] has_bundle_tick [OF k]
    by (cases "route_bundle F (e\<lparr>bundle_manager := M\<rparr>) c (tock W2)") (auto simp: take_in_def)
  have cap: "bm_cap (M, tock W2) = bm_cap (eng_state e W)"
    using mgr.step_cap [OF x(3)] by (simp add: bm_cap_def)
  have "tick W \<le> tick W2" using bm_step_node_step [OF x(3), of "{}"] by (simp add: node_step_def)
  with that [OF t ok v cap] has_bundle_tick [OF k] show thesis by simp
qed

lemma can_takeD:
  assumes "can_take E b N i" and "node_at N i = (e, W)" and "c \<in> on_the_way E b"
  shows "eng_node_id e = i" "io_ok (E i)" "net_ok (E i)" "manager_ok (E i) (eng_state e W)"
    and "length (bm_view (E i) (eng_state e W)) + 1 < bm_cap (eng_state e W)"
    and "\<not> has_id (bm_view (E i) (eng_state e W)) (b_id c)" and "\<not> has_ack (bm_view (E i) (eng_state e W)) (b_id c)"
    and "n \<le> tick W + 2 \<Longrightarrow> \<not> expired_at (E i) (now (E i) n) c" and "n \<le> tick W + 2 \<Longrightarrow> runtime_build (E i) n"
  using assms on_the_wayD [OF assms(3)] by (simp_all add: can_take_def)

lemma take_in_hands_on:
  assumes "can_take E b N i" and "node_at N i = (e, W)" and "c \<in> on_the_way E b" and "is_Data (b_kind b)"
    and "n_id (b_destination b) \<noteq> i" and "meets (E i) e b a"
  shows "\<exists>e' W'. take_in (E i) e c W = Some (True, e', W') \<and> (a, c) \<in> set (frames W')"
proof -
  note t = can_takeD [OF assms(1-3)] and c = on_the_wayD [OF assms(3)]
  obtain M V where r: "take_in (E i) e c W = map_option (\<lambda>(e, _, W). (True, e, W)) (route_bundle (E i) (e\<lparr>bundle_manager := M\<rparr>) c V)"
    and s: "manager_ok (E i) (M, V)" "bm_view (E i) (M, V) = bm_view (E i) (eng_state e W)"
      "bm_cap (M, V) = bm_cap (eng_state e W)" and v: "tick V \<le> tick W + 2"
    using take_in_routes [OF t(4,2,6,9)] .
  have "meets (E i) (e\<lparr>bundle_manager := M\<rparr>) c a" using assms(6) by (simp only: meets_manager meets_cong [OF c(1,2), of "E i" e a])
  then have "\<exists>e' b' W'. route_bundle (E i) (e\<lparr>bundle_manager := M\<rparr>) c V = Some (e', b', W') \<and> (a, c) \<in> set (frames W')"
    using s t c assms(4,5) v by (intro route_hands_on) simp_all
  with r show ?thesis by auto
qed

lemma take_in_arrives:
  assumes "can_take E b N i" and "node_at N i = (e, W)" and "c \<in> on_the_way E b" and "is_Data (b_kind b)"
    and "n_id (b_destination b) = i"
    and "\<And>n. tick W \<le> n \<Longrightarrow> new_v4 (E i) n \<notin> insert (b_id b) (b_id ` set (bm_view (E i) (eng_state e W)))"
  shows "\<exists>e' W'. take_in (E i) e c W = Some (True, e', W') \<and>
    (\<exists>a \<in> set (bm_view (E i) (eng_state e' W')). b_kind a = Ack (b_id b) \<and> b_destination a = b_source b)"
proof -
  note t = can_takeD [OF assms(1-3)] and c = on_the_wayD [OF assms(3)]
  obtain M V where r: "take_in (E i) e c W = map_option (\<lambda>(e, _, W). (True, e, W)) (route_bundle (E i) (e\<lparr>bundle_manager := M\<rparr>) c V)"
    and s: "manager_ok (E i) (M, V)" "bm_view (E i) (M, V) = bm_view (E i) (eng_state e W)"
      "bm_cap (M, V) = bm_cap (eng_state e W)" and v: "tick W \<le> tick V" "tick V \<le> tick W + 2"
    using take_in_routes [OF t(4,2,6,9)] .
  let ?e = "e\<lparr>bundle_manager := M\<rparr>"
  obtain e' b' W' where rb: "route_bundle (E i) ?e c V = Some (e', b', W')"
    using route_bundle_total [of "E i" ?e V c] s(1) by (metis RoutingEngine.select_convs(5) RoutingEngine.update_convs(5) not_None_eq surj_pair RoutingEngine.surjective)
  have ok: "manager_ok (E i) (bundle_manager ?e, V)" using s(1) by simp
  have d: "\<not> is_Ack (b_kind c)" using assms(4) c(4) by (cases "b_kind c") auto
  have x: "\<not> fst (is_expired (E i) c V)" using t(8) [OF v(2)] by (simp add: is_expired_eq)
  have f: "new_v4 (E i) n \<notin> insert (b_id c) (b_id ` set (bm_view (E i) (bundle_manager ?e, V)))"
    if "tick V \<le> n" for n using assms(6) [of n] that v(1) s(2) c(1) by simp
  have "\<exists>a \<in> set (bm_view (E i) (bundle_manager e', W')). b_kind a = Ack (b_id c) \<and>
    b_source a = b_destination c \<and> b_destination a = b_source c \<and>
    b_id a \<notin> b_id ` set (bm_view (E i) (bundle_manager ?e, V))"
    using s(2,3) t(1,5) c(3) assms(5) by (intro route_acknowledges [OF ok t(2) d x _ _ f rb]) simp_all
  with r rb c show ?thesis by auto
qed

section \<open>Along a path\<close>

text \<open>
  The bundle is on the wire to the first node of the path. By induction on the path, each
  node hands it to the next.
\<close>

lemma relayed_along:
  assumes "wire_laws E" and "is_Data (b_kind b)" and "path \<noteq> []" and "distinct path"
    and "last path = n_id (b_destination b)" and "\<forall>i \<in> set path. can_take E b N i" and "linked place E b N path"
    and "(place (hd path), c) \<in> set (frames (snd (node_at N k)))" and "c \<in> on_the_way E b"
    and "node_at N (last path) = (e, W)"
    and "\<And>n. tick W \<le> n \<Longrightarrow> new_v4 (E (last path)) n \<notin>
      insert (b_id b) (b_id ` set (bm_view (E (last path)) (eng_state e W)))"
  shows "\<exists>N' e' W'. (relay place E)\<^sup>*\<^sup>* N N' \<and> (last path, b_id b) \<in> arrived N' \<and> node_at N' (last path) = (e', W') \<and>
    (\<exists>a \<in> set (bm_view (E (last path)) (eng_state e' W')). b_kind a = Ack (b_id b) \<and> b_destination a = b_source b)"
  using assms(3-11)
proof (induction path arbitrary: N c k rule: induct_list012)
  case (2 i)
  let ?c = "hop (E i) (E k) c"
  have d: "carriable b" using assms(2) by (simp add: carriable_def)
  have c: "?c \<in> on_the_way E b" using hop_on_the_way [OF assms(1) d 2(7)] .
  have ct: "can_take E b N i" and at: "node_at N i = (e, W)" using 2(4,8) by simp_all
  have fresh: "new_v4 (E i) n \<notin> insert (b_id b) (b_id ` set (bm_view (E i) (eng_state e W)))" if "tick W \<le> n" for n
    using 2(9) [OF that] by simp
  obtain e' W' where t: "take_in (E i) e ?c W = Some (True, e', W')"
    and a: "\<exists>a \<in> set (bm_view (E i) (eng_state e' W')). b_kind a = Ack (b_id b) \<and> b_destination a = b_source b"
    using take_in_arrives [OF ct at c assms(2) _ fresh] 2(3) by auto
  let ?N = "put_state i (e', W') (N\<lparr>arrived := arrived N \<union> arrivals i ?c\<rparr>)"
  have "relay place E N ?N" using 2(6) by (intro relay.hand_over [OF at _ refl t]) simp
  moreover have "(i, b_id b) \<in> arrived ?N"
    using on_the_wayD [OF c] assms(2) 2(3) by (cases "b_kind b") (simp_all add: put_state_def arrivals_def)
  moreover have "node_at ?N i = (e', W')" by (simp add: put_state_def)
  ultimately show ?case using a by auto
next
  case (3 i j path)
  let ?c = "hop (E i) (E k) c"
  have d: "carriable b" using assms(2) by (simp add: carriable_def)
  have c: "?c \<in> on_the_way E b" using hop_on_the_way [OF assms(1) d 3(9)] .
  obtain f V where f: "node_at N i = (f, V)" by fastforce
  have i: "i \<notin> set (j # path)" using 3(4) by simp
  then have l: "last (j # path) \<noteq> i" by (metis last_in_set list.distinct(1))
  then have ct: "can_take E b N i" and m: "meets (E i) f b (place j)" and ne: "n_id (b_destination b) \<noteq> i"
    using 3(5-7) f by auto
  obtain e' W' where t: "take_in (E i) f ?c V = Some (True, e', W')" and a: "(place j, ?c) \<in> set (frames W')"
    using take_in_hands_on [OF ct f c assms(2) ne m] by blast
  let ?N = "put_state i (e', W') (N\<lparr>arrived := arrived N \<union> arrivals i ?c\<rparr>)"
  have s: "relay place E N ?N" using 3(8) by (intro relay.hand_over [OF f _ refl t]) simp
  have "\<exists>N' e' W'. (relay place E)\<^sup>*\<^sup>* ?N N' \<and> (last (j # path), b_id b) \<in> arrived N' \<and>
    node_at N' (last (j # path)) = (e', W') \<and>
    (\<exists>a \<in> set (bm_view (E (last (j # path))) (eng_state e' W')). b_kind a = Ack (b_id b) \<and> b_destination a = b_source b)"
  proof (rule 3(2) [where c = ?c and k = i])
    show "\<forall>x \<in> set (j # path). can_take E b ?N x" using 3(6) i by (metis can_take_history(1) can_take_put list.set_intros(2))
    show "linked place E b ?N (j # path)" using 3(7) linked_put [OF i] by (metis linked.simps(1) linked_history(1))
    show "(place (hd (j # path)), ?c) \<in> set (frames (snd (node_at ?N i)))" using a by (simp add: put_state_def)
    show "node_at ?N (last (j # path)) = (e, W)" using 3(10) l by (simp add: put_state_def)
  qed (use 3(4,5,11) c in simp_all)
  with s show ?case by (metis (no_types, lifting) converse_rtranclp_into_rtranclp last_ConsR list.distinct(1))
qed simp

text \<open>
  C9. Store, carry and forward works over any number of hops: a message that a user sends, for
  a node at the end of a path of distinct nodes each of which reports the next one as a
  connected peer, reaches its destination once the frames on the path are handed over, and
  the destination then holds an acknowledgement for the sender. The nodes on the path have
  working disks, network connections and runtimes, have room, have not seen the message, and it does not
  expire on the way.
\<close>

theorem message_travels_along_a_path:
  assumes "wire_laws E" and "distinct (i # path)" and "path \<noteq> []" and "n_id src = i" and "n_id dst = last path"
    and "node_at N i = (e, W)" and "bundle_new (E i) src dst (Data text) ttl W = (b, W1)"
    and "\<forall>k \<in> set (i # path). can_take E b N k" and "linked place E b N (i # path)"
    and "node_at N (last path) = (f, V)"
    and "\<And>n. tick V \<le> n \<Longrightarrow> new_v4 (E (last path)) n \<notin>
      insert (b_id b) (b_id ` set (bm_view (E (last path)) (bundle_manager f, V)))"
  shows "\<exists>N1 N2 f' V' a. sys_step query E N N1 \<and> (relay place E)\<^sup>*\<^sup>* N1 N2 \<and> created N1 = insert b (created N) \<and>
    (n_id dst, b_id b) \<in> arrived N2 \<and> node_at N2 (n_id dst) = (f', V') \<and>
    a \<in> set (bm_view (E (n_id dst)) (bundle_manager f', V')) \<and> b_kind a = Ack (b_id b) \<and> b_destination a = src"
proof -
  obtain j rest where p: "path = j # rest" using assms(3) by (cases path) auto
  note b = bundle_new_simps [OF assms(7)]
  have w: "b \<in> on_the_way E b" using stamps.origin [of b E] b(5)
    by (auto simp: on_the_way_def intro!: exI [of _ "b_timestamp b"])
  note t = can_takeD [OF _ assms(6) w] and c = on_the_wayD [OF w]
  have ct: "can_take E b N i" using assms(8) by simp
  have net: "net_step {} W W1" using b(8) by (auto simp: net_step_def)
  have m: "meets (E i) e b (place j)" using assms(6,9) by (simp add: p)
  have "i \<noteq> last path" using assms(2,3) by auto
  then have "\<exists>e' b' W'. route_bundle (E i) e b W1 = Some (e', b', W') \<and> (place j, b) \<in> set (frames W')"
    using net_step_view [OF net, of "E i" "bundle_manager e"] t [OF ct] b assms(5) m
    by (intro route_hands_on) (auto simp: bm_cap_def)
  then obtain e' b' W' where r: "route_bundle (E i) e b W1 = Some (e', b', W')" and s: "(place j, b) \<in> set (frames W')"
    by blast
  let ?N = "put_state i (e', W') (N\<lparr>created := insert b (created N), arrived := arrived N \<union> arrivals i b\<rparr>)"
  have step: "sys_step query E N ?N" using assms(6,7,4) r by (rule sys_step.send)
  have i: "i \<notin> set path" using assms(2) by simp
  have "\<exists>N' e' W'. (relay place E)\<^sup>*\<^sup>* ?N N' \<and> (last path, b_id b) \<in> arrived N' \<and> node_at N' (last path) = (e', W') \<and>
    (\<exists>a \<in> set (bm_view (E (last path)) (eng_state e' W')). b_kind a = Ack (b_id b) \<and> b_destination a = b_source b)"
  proof (rule relayed_along [OF assms(1) _ assms(3), where c = b and k = i])
    show "\<forall>k \<in> set path. can_take E b ?N k" using assms(8) i by (metis can_take_history can_take_put list.set_intros(2))
    have "linked place E b N path" using assms(9) by (simp add: p)
    then show "linked place E b ?N path" using linked_put [OF i] by (metis linked_history)
    show "(place (hd path), b) \<in> set (frames (snd (node_at ?N i)))" using s by (simp add: put_state_def p)
    show "node_at ?N (last path) = (f, V)" using assms(10) \<open>i \<noteq> last path\<close> by (simp add: put_state_def)
  qed (use assms(2,5,11) b w in simp_all)
  moreover have "created ?N = insert b (created N)" by (simp add: put_state_def)
  ultimately show ?thesis using step b(1) assms(5) by metis
qed

text \<open>Node 1 sends to node 2 through node 3.\<close>

definition stop :: "uuid \<Rightarrow> PeerRecord" where
  "stop i = \<lparr>p_node = (sample_node i ''stop'')\<lparr>n_port := ucast i\<rparr>, p_status = Connected\<rparr>"

definition trio_env :: "uuid \<Rightarrow> string env" where
  "trio_env i = sample_env\<lparr>new_v4 := (\<lambda>_. i), response_from_slice := (\<lambda>_. Some (Peers [stop (if i = 1 then 3 else 2)]))\<rparr>"

definition trio :: system where
  "trio = \<lparr>node_at = (\<lambda>i. (sample_engine\<lparr>eng_node_id := i\<rparr>, sample_world)), created = {}, arrived = {}\<rparr>"

definition trio_bundle :: Bundle where
  "trio_bundle = \<lparr>b_id = 1, b_source = sample_node 1 ''alice'', b_destination = sample_node 2 ''bob'',
     b_timestamp = 1001, b_ttl = 60, b_kind = Data ''hello'', b_status = Pending\<rparr>"

lemma trio_laws: "serde_laws (trio_env i)" "io_ok (trio_env i)" "net_ok (trio_env i)" "wire_laws trio_env"
  using sample_serde_laws sample_io_ok sample_net_ok sample_uuid_laws
  by (simp_all add: trio_env_def serde_laws_def io_ok_def net_ok_def wire_laws_def uuid_laws_def)

lemma trio_meets: "meets (trio_env i) (sample_engine\<lparr>eng_node_id := i\<rparr>) b (peer_socket (stop (if i = 1 then 3 else 2)))"
  if "i \<noteq> 2"
proof -
  let ?e = "sample_engine\<lparr>eng_node_id := i\<rparr>" and ?p = "stop (if i = 1 then 3 else 2)"
  have n: "tcp_write (trio_env i) n = None" "tcp_read (trio_env i) n" "tcp_incoming (trio_env i) n a = []"
    "response_from_slice (trio_env i) bs = Some (Peers [?p])" for n a bs
    by (simp_all add: trio_env_def sample_env_def)
  have m: "n_id (p_node ?p) \<noteq> i" using that by (simp add: stop_def sample_node_def)
  have "fst (connected_peers (trio_env i) ?e s V) = [?p]" for s V
    by (simp add: connected_peers_def get_connected_peers_from_server_def net_ok_connect [OF trio_laws(3)]
        stream_write_all_def stream_read_def Let_def n m)
  moreover have "fst (get_peer_summary_vector (trio_env i) ?e a p V) = []" for a p V
    by (simp add: get_peer_summary_vector_def request_peer_sv_def net_ok_connect [OF trio_laws(3)]
        stream_write_all_def stream_read_exact_def Let_def n split: option.splits)
  ultimately show ?thesis by (simp add: meets_def)
qed

lemma trio_stamps: "t \<in> stamps trio_env trio_bundle \<Longrightarrow> t = 1001"
proof (induction rule: stamps.induct)
  case origin
  show ?case by (simp add: trio_bundle_def)
next
  case (hopped t i j)
  then show ?case by (simp add: datetime_or_default_def trio_env_def sample_env_def)
qed

lemma trio_can_take: "can_take trio_env trio_bundle trio i"
proof -
  have "\<not> expired_at (trio_env i) (now (trio_env i) n) c"
    if "n \<le> 2" "c \<in> on_the_way trio_env trio_bundle" for n c
  proof -
    from that(2) obtain t where t: "c = trio_bundle\<lparr>b_timestamp := t, b_status := Pending\<rparr>"
      "t \<in> stamps trio_env trio_bundle" unfolding on_the_way_def by blast
    have "int n \<le> 2" using that(1) by simp
    then show ?thesis using trio_stamps [OF t(2)] t(1)
      by (simp add: expired_at_def sint_u64 trio_bundle_def) (simp add: trio_env_def sample_env_def)
  qed
  moreover have "tick sample_world = 0" by (simp add: sample_world_def)
  moreover have "runtime_build (trio_env i) n" for n by (simp add: trio_env_def sample_env_def)
  ultimately show ?thesis
    using sample_manager_ok [OF trio_laws(1)] trio_laws(2,3) by (simp add: can_take_def trio_def has_id_def has_ack_def)
qed

theorem message_travels_along_a_path_witness:
  "\<exists>N1 N2. sys_step (\<lambda>is W. ([], W)) trio_env trio N1 \<and> (relay (\<lambda>i. peer_socket (stop i)) trio_env)\<^sup>*\<^sup>* N1 N2 \<and>
     (2, 1) \<in> arrived N2"
proof -
  have n: "bundle_new (trio_env 1) (sample_node 1 ''alice'') (sample_node 2 ''bob'') (Data ''hello'') 60 sample_world =
      (trio_bundle, tock (tock sample_world))"
    by (simp add: bundle_new_def uuid_new_v4_def utc_now_def trio_bundle_def sample_world_def)
      (simp add: trio_env_def sample_env_def)
  have l: "linked (\<lambda>i. peer_socket (stop i)) trio_env trio_bundle trio [1, 3, 2]"
    using trio_meets [of 1 trio_bundle] trio_meets [of 3 trio_bundle] by (simp add: trio_def)
  have t: "node_at trio i = (sample_engine\<lparr>eng_node_id := i\<rparr>, sample_world)" for i by (simp add: trio_def)
  have "\<exists>N1 N2 f' V' a. sys_step (\<lambda>is W. ([], W)) trio_env trio N1 \<and>
    (relay (\<lambda>i. peer_socket (stop i)) trio_env)\<^sup>*\<^sup>* N1 N2 \<and> created N1 = insert trio_bundle (created trio) \<and>
    (n_id (sample_node 2 ''bob''), b_id trio_bundle) \<in> arrived N2 \<and> node_at N2 (n_id (sample_node 2 ''bob'')) = (f', V') \<and>
    a \<in> set (bm_view (trio_env (n_id (sample_node 2 ''bob''))) (bundle_manager f', V')) \<and>
    b_kind a = Ack (b_id trio_bundle) \<and> b_destination a = sample_node 1 ''alice''"
    by (rule message_travels_along_a_path [OF trio_laws(4) _ _ _ _ t n _ l t])
      (simp_all add: trio_can_take sample_node_def, simp_all add: trio_env_def trio_bundle_def)
  then show ?thesis by (auto simp: sample_node_def trio_bundle_def)
qed

end
