(* ===== verification/Spec2Isabelle.thy ===== *)
theory Spec2Isabelle
  imports Storage_Props Network_Props Registry_Props Engine_Props System_Props Multi_Hop
begin

text \<open>
  A model of WhatSpace, a delay-tolerant messaging program in Rust, and the theorems that make
  it correct.

  \<^bold>\<open>The program.\<close> A process owns a few nodes. A node sends messages as bundles; it keeps the
  bundles it carries in a file and passes them on when a peer can be reached
  (store-carry-forward). The destination answers with an acknowledgement, which travels back
  in the same way and removes the bundle from the nodes it passes. A registry server knows
  which nodes are connected. The files of the program are under \<open>src/src\<close>.

  \<^bold>\<open>The parts, from the bottom up.\<close>
  \<^item> \<open>Prelude\<close>: words, lists and byte order. \<open>Model\<close>: the data types of
    \<open>routing/model.rs\<close>, \<open>network/bundle.proto\<close> and \<open>network/server.rs\<close>, as records and
    datatypes with the fields and constructors of the source.
  \<^item> \<open>Environment\<close>: what is not under \<open>src\<close>. The record \<open>env\<close> holds the third-party functions
    (chrono, uuid, serde_json, protobuf) and the outcome of each call of the operating system,
    indexed by a counter, so that every file and socket operation may fail at any call. The
    record \<open>world\<close> holds the files, the counter, and the history: which files hold contents
    that are not synced, what was written to the network, and which frames were answered. The documented behaviour a theorem relies on is a named hypothesis
    (\<open>serde_laws\<close>, \<open>io_ok\<close>, \<open>net_ok\<close>, \<open>uuid_laws\<close>, \<open>chrono_laws\<close>, \<open>protobuf_laws\<close>,
    \<open>kind_laws\<close>). \<open>Sample_Env\<close> is an instance of it on which the witnesses are evaluated.
  \<^item> \<open>Bundle_Ops\<close>: \<open>Bundle::new\<close>, \<open>new_ack\<close>, \<open>is_expired\<close> and the identifier of a node
    (\<open>routing/model.rs\<close>, \<open>routing/ack.rs\<close>).
  \<^item> \<open>Store_Interface\<close>: the contract of a store of bundles as locales. \<open>bundle_store\<close> holds in
    every environment: operations may fail, yet never invent a bundle, and keep identifiers
    distinct and the capacity. \<open>reliable_store\<close> adds the exact result on a working disk.
  \<^item> \<open>Storage\<close>, \<open>Storage_Facts\<close>: \<open>storage/storage.rs\<close>, the file replaced by write, sync and
    rename; both locales are interpreted on it. \<open>Storage_Race\<close>: \<open>save_bundle\<close> and
    \<open>update_bundle\<close> cut at the point where the lock is not held. \<open>Storage_Props\<close>, with the
    specification of the operations on a plain list, \<open>apply_op\<close>, which restarts refine.
  \<^item> \<open>Bundle_Manager\<close>: \<open>routing/bundleManager.rs\<close>; both locales are interpreted again on the
    manager, and the engine rests on that interpretation only.
  \<^item> \<open>Wire\<close>: \<open>network/protobuf.rs\<close>. \<open>Network_Client\<close>, \<open>Network_Facts\<close>: \<open>network/client.rs\<close> but
    for the receiving loop, which is \<open>Peer_Loop\<close> (\<open>peer_iteration\<close> is a round of it, \<open>take_in\<close>
    the part that handles a bundle). \<open>Network_Props\<close>.
  \<^item> \<open>Registry\<close>, \<open>Registry_Props\<close>: \<open>network/server.rs\<close>, the loop over one connection and the
    server as a step relation over its connections. A print that fails under the lock of the
    registry panics and poisons the mutex: the events \<open>RequestPanic\<close> and \<open>ClosePanic\<close>, and the
    field \<open>console\<close> of the environment.
  \<^item> \<open>Engine\<close>: \<open>routing/engine.rs\<close> and \<open>routing/scf.rs\<close>, one definition for each loop and branch
    of \<open>route_bundle\<close> and \<open>retry_unsynced_bundles\<close>. \<open>Engine_Facts\<close> and \<open>Engine_Results\<close>: what
    holds in every environment (only known bundles are stored and sent, every operation
    returns). \<open>Engine_Exact\<close> and \<open>Engine_Loops\<close>: the results on a working disk.
    \<open>Routing_Props\<close>, \<open>Engine_Props\<close>.
  \<^item> \<open>Cli\<close>, \<open>Cli_Facts\<close>: \<open>cli/cli.rs\<close>, \<open>cli/handler.rs\<close>, \<open>main.rs\<close>; the commands, the static
    tables, the threads of started nodes as a step relation, the interactive loop.
  \<^item> \<open>Delivery\<close>: nodes that exchange frames over a network that delays, repeats, reorders and
    loses them. \<open>System_Props\<close>: the properties of processes and of such systems.
    \<open>Multi_Hop\<close>: delivery along a path of nodes, by induction on the path.

  \<^bold>\<open>State and errors.\<close> Every operation takes the state it changes and returns it: a
  \<open>store\<close> or \<open>manager\<close> is the Rust value with the world. \<open>None\<close> is a panic or an exit; a
  \<open>Result\<close> is a sum; a \<open>bool\<close> result is a boolean. Words have the width of the source.

  \<^bold>\<open>What the theorems show.\<close> The storage theorems: exact results of each operation on a working
  disk, the invariant under any failures, atomic replacement of the file at a crash or a loss
  of power, recovery of all earlier operations at any restart, and the lost update between two
  threads. The network theorems: round trips of bundles, frames and summary vectors, termination
  of the receiving loop, bounds of the retries. The registry theorems: the invariant of the
  records, which nodes are listed along a run, the refinement of the step relation by the loop,
  piece by piece of the bytes it reads, the poisoned mutex after which no node is listed, and
  the reconnect that is lost. The routing theorems: where stored and sent bundles come from,
  each branch of \<open>route_bundle\<close>, progress towards each peer on a working network, what exactly a
  retry round sends and marks, and termination. The system theorems: authenticity of data and
  acknowledgements end to end, delivery over any number of hops, the invariant of a process,
  and what the commands promise.

  \<^bold>\<open>Bounds and fuel.\<close> There is no fuel. Loops are structural recursion over what they iterate,
  the loop over a registry connection recurs on the bytes left, and \<open>handle_peer_to_peer\<close>,
  which need not end when reads fail, is a \<open>partial_function\<close>, with a theorem that it returns
  when reads succeed. The interactive loop recurs on the lines read so far.

  \<^bold>\<open>Granularity.\<close> The steps of \<open>app_step\<close> and \<open>sys_step\<close> are whole commands, connections and
  retry rounds. The code takes the storage lock for each file access only, so a process with
  several threads on one node has more interleavings; \<open>Storage_Race\<close> shows that they do lose
  bundles, and the theorems over these steps do not speak about them.

  \<^bold>\<open>Not modelled.\<close> Texts on standard error, prompts and the texts \<open>main\<close> and the storage layer
  print; the panic of a print that fails outside the lock of the registry (it ends its thread
  only, but after a failed read in \<open>handle_client\<close> the node would stay listed); read timeouts
  but as failed reads; binding of ports and the accept loop but as events; \<open>clap\<close> (a
  parameter); the \<open>Debug\<close> command of a feature flag; blanks outside ASCII in \<open>trim\<close> and
  \<open>split_whitespace\<close>; the generated protobuf code (\<open>network/bundle.rs\<close>, \<open>build.rs\<close>). A
  rename is atomic also at a loss of power. The registry call in \<open>retry_unsynced_bundles\<close> has an
  argument too few in the source and is a parameter of that definition.
  \<open>save_ack_if_new_for_data\<close> is modelled, but nothing calls it.
\<close>

end
